theory Spec2Isabelle
  imports Complex_Main "HOL-Library.Word"
begin

section \<open>Buffers, tensors and errors\<close>

text \<open>
  A device or host float buffer is addressed by element offset. Single-precision
  arithmetic is idealised to exact real arithmetic throughout: rounding, overflow to
  infinity and NaN are outside this model.
\<close>

type_synonym buf = "nat \<Rightarrow> real"

type_synonym bytebuf = "nat \<Rightarrow> 8 word"

text \<open>A finite initial segment of a buffer given as a list; the rest reads 0.\<close>

definition buf_of :: "real list \<Rightarrow> buf" where
  "buf_of xs = (\<lambda>a. if a < length xs then xs ! a else 0)"

text \<open>
  The host tensor of the TH/THC library, as far as the entry points use it: the
  \<open>size\<close> and \<open>stride\<close> arrays (C \<open>long\<close>, never negative) and the storage.
\<close>

record tensor =
  tsize :: "nat list"
  tstride :: "nat list"
  tdata :: buf

datatype error = NotThreeD | CapacityExceeded | SharedMemExceeded

text \<open>
  Conversion of a 64-bit count to a C \<open>int\<close>, as \<open>int n = THCudaTensor_nElement(...)\<close>
  does it on the two's complement targets of the CUDA toolchain: the low 32 bits, read signed.
\<close>

definition int_of_long :: "nat \<Rightarrow> int" where
  "int_of_long n = sint (word_of_nat n :: 32 word)"

text \<open>
  Conversion of a float to a C \<open>int\<close>: truncation towards zero. Out of range the
  conversion is undefined in C; x86 yields the most negative \<open>int\<close>.
\<close>

definition float_to_int :: "real \<Rightarrow> int" where
  "float_to_int x =
     (let t = (if 0 \<le> x then \<lfloor>x\<rfloor> else \<lceil>x\<rceil>)
      in if - (2 ^ 31) \<le> t \<and> t < 2 ^ 31 then t else - (2 ^ 31))"

definition THCudaTensor_nElement :: "tensor \<Rightarrow> nat" where
  "THCudaTensor_nElement t = (if tsize t = [] then 0 else prod_list (tsize t))"

fun contiguous_strides :: "nat list \<Rightarrow> nat list" where
  "contiguous_strides [] = []"
| "contiguous_strides (n # ns) = prod_list ns # contiguous_strides ns"

fun indices :: "nat list \<Rightarrow> nat list list" where
  "indices [] = [[]]"
| "indices (n # ns) = concat (map (\<lambda>i. map ((#) i) (indices ns)) [0..<n])"

definition offset :: "nat list \<Rightarrow> nat list \<Rightarrow> nat" where
  "offset st idx = sum_list (map2 (*) st idx)"

fun unravel :: "nat list \<Rightarrow> nat \<Rightarrow> nat list" where
  "unravel [] a = []"
| "unravel (n # ns) a = (a div prod_list ns) # unravel ns (a mod prod_list ns)"

text \<open>The storage offsets of the elements of a tensor.\<close>

definition elem_offsets :: "tensor \<Rightarrow> nat list" where
  "elem_offsets t = (if tsize t = [] then [] else map (offset (tstride t)) (indices (tsize t)))"

definition THCudaTensor_fill :: "tensor \<Rightarrow> real \<Rightarrow> tensor" where
  "THCudaTensor_fill t v =
     t\<lparr>tdata := (\<lambda>a. if a \<in> set (elem_offsets t) then v else tdata t a)\<rparr>"

text \<open>\<open>THCudaTensor_mul(state, t, t, v)\<close>: every element of \<open>t\<close> scaled in place.\<close>

definition THCudaTensor_mul :: "tensor \<Rightarrow> real \<Rightarrow> tensor" where
  "THCudaTensor_mul t v =
     t\<lparr>tdata := (\<lambda>a. if a \<in> set (elem_offsets t) then tdata t a * v else tdata t a)\<rparr>"

text \<open>A fresh tensor of the same sizes, laid out row-major, holding the same elements.\<close>

definition THCudaTensor_newContiguous :: "tensor \<Rightarrow> tensor" where
  "THCudaTensor_newContiguous t =
     \<lparr>tsize = tsize t, tstride = contiguous_strides (tsize t),
      tdata = (\<lambda>a. tdata t (offset (tstride t) (unravel (tsize t) a)))\<rparr>"

definition THCudaTensor_resizeAs :: "tensor \<Rightarrow> tensor \<Rightarrow> tensor" where
  "THCudaTensor_resizeAs t src =
     t\<lparr>tsize := tsize src, tstride := contiguous_strides (tsize src)\<rparr>"


section \<open>Host entry points of the delta variant\<close>

text \<open>
  What an entry point hands to its launcher: the data pointers, the dimensions as C
  \<open>int\<close>, and the three stride arrays.
\<close>

record launch_args =
  la_points :: buf
  la_masks :: buf
  la_tfms :: buf
  la_batchSize :: int
  la_ndim :: int
  la_nrows :: int
  la_ncols :: int
  la_nSE3 :: int
  la_nTfmParams :: int
  la_ps :: "nat list"
  la_ms :: "nat list"
  la_ts :: "nat list"

record bwd_args = launch_args +
  la_tfmpoints :: buf
  la_gradPoints :: buf
  la_gradMasks :: buf
  la_gradTfms :: buf
  la_gradTfmpoints :: buf

text \<open>
  \<open>NTfm3DDelta_forward_cuda\<close>. The launcher \<open>NTfm3DDelta_ForwardLauncher\<close> is a
  parameter \<open>L\<close>: it receives the arguments and the output buffer and returns the
  output buffer after the kernel. A failed \<open>assert\<close> ends the call with an error.
\<close>

definition NTfm3DDelta_forward_cuda ::
  "(launch_args \<Rightarrow> buf \<Rightarrow> buf) \<Rightarrow> tensor \<Rightarrow> tensor \<Rightarrow> tensor \<Rightarrow> tensor \<Rightarrow> error + tensor" where
  "NTfm3DDelta_forward_cuda L points masks tfms tfmpoints =
     (let batchSize = int_of_long (tsize points ! 0);
          ndim = int_of_long (tsize points ! 1);
          nrows = int_of_long (tsize points ! 2);
          ncols = int_of_long (tsize points ! 3);
          nSE3 = int_of_long (tsize masks ! 1)
      in if ndim \<noteq> 3 then Inl NotThreeD
         else
           let nTfmParams = int_of_long (THCudaTensor_nElement tfms)
           in if nTfmParams > 15000 then Inl CapacityExceeded
              else
                let points' = THCudaTensor_newContiguous points;
                    masks' = THCudaTensor_newContiguous masks;
                    tfms' = THCudaTensor_newContiguous tfms;
                    tfmpoints' = THCudaTensor_resizeAs tfmpoints points';
                    args = \<lparr>la_points = tdata points', la_masks = tdata masks',
                            la_tfms = tdata tfms', la_batchSize = batchSize, la_ndim = ndim,
                            la_nrows = nrows, la_ncols = ncols, la_nSE3 = nSE3,
                            la_nTfmParams = nTfmParams, la_ps = tstride points',
                            la_ms = tstride masks', la_ts = tstride tfms'\<rparr>
                in Inr (tfmpoints'\<lparr>tdata := L args (tdata tfmpoints')\<rparr>))"

text \<open>
  \<open>NTfm3DDelta_backward_cuda\<close> up to the launch: the checks, the two fills, and the
  arguments that \<open>NTfm3DDelta_BackwardLauncher\<close> is called with.
\<close>

definition NTfm3DDelta_backward_args ::
  "tensor \<Rightarrow> tensor \<Rightarrow> tensor \<Rightarrow> tensor \<Rightarrow> tensor \<Rightarrow> tensor \<Rightarrow> tensor \<Rightarrow> tensor
     \<Rightarrow> error + bwd_args" where
  "NTfm3DDelta_backward_args points masks tfms tfmpoints gradPoints gradMasks gradTfms
       gradTfmpoints =
     (let batchSize = tsize points ! 0;
          ndim = tsize points ! 1;
          nrows = tsize points ! 2;
          ncols = tsize points ! 3;
          nSE3 = tsize masks ! 1
      in if ndim \<noteq> 3 then Inl NotThreeD
         else
           let nTfmParams = int_of_long (THCudaTensor_nElement tfms)
           in if nTfmParams > 15000 then Inl CapacityExceeded
              else
                let points' = THCudaTensor_newContiguous points;
                    masks' = THCudaTensor_newContiguous masks;
                    tfms' = THCudaTensor_newContiguous tfms;
                    gradPoints' = THCudaTensor_fill gradPoints 0;
                    gradTfms' = THCudaTensor_fill gradTfms 0
                in Inr \<lparr>la_points = tdata points', la_masks = tdata masks',
                        la_tfms = tdata tfms', la_batchSize = int_of_long batchSize,
                        la_ndim = int_of_long ndim, la_nrows = int_of_long nrows,
                        la_ncols = int_of_long ncols, la_nSE3 = int_of_long nSE3,
                        la_nTfmParams = nTfmParams, la_ps = tstride points',
                        la_ms = tstride masks', la_ts = tstride tfms',
                        la_tfmpoints = tdata tfmpoints, la_gradPoints = tdata gradPoints',
                        la_gradMasks = tdata gradMasks, la_gradTfms = tdata gradTfms',
                        la_gradTfmpoints = tdata gradTfmpoints\<rparr>)"

text \<open>
  The whole backward entry point: the launcher \<open>L\<close> returns the three gradient
  buffers after the kernel, which are the storage of the caller's gradient tensors.
\<close>

definition NTfm3DDelta_backward_cuda ::
  "(bwd_args \<Rightarrow> buf \<times> buf \<times> buf) \<Rightarrow> tensor \<Rightarrow> tensor \<Rightarrow> tensor \<Rightarrow> tensor \<Rightarrow> tensor \<Rightarrow> tensor
     \<Rightarrow> tensor \<Rightarrow> tensor \<Rightarrow> error + tensor \<times> tensor \<times> tensor" where
  "NTfm3DDelta_backward_cuda L points masks tfms tfmpoints gradPoints gradMasks gradTfms
       gradTfmpoints =
     (case NTfm3DDelta_backward_args points masks tfms tfmpoints gradPoints gradMasks
             gradTfms gradTfmpoints of
        Inl e \<Rightarrow> Inl e
      | Inr args \<Rightarrow>
          (case L args of
             (gp, gm, gt) \<Rightarrow>
               Inr (gradPoints\<lparr>tdata := gp\<rparr>, gradMasks\<lparr>tdata := gm\<rparr>,
                    gradTfms\<lparr>tdata := gt\<rparr>)))"


section \<open>Host entry points of the fused loss variant\<close>

record loss_args = launch_args +
  la_targetpts :: buf

text \<open>The arguments \<open>Weighted3DTransformLoss_ForwardLauncher\<close> is called with.\<close>

definition Weighted3DTransformLoss_forward_args ::
  "tensor \<Rightarrow> tensor \<Rightarrow> tensor \<Rightarrow> tensor \<Rightarrow> loss_args" where
  "Weighted3DTransformLoss_forward_args points masks tfms targetpoints =
     (let points' = THCudaTensor_newContiguous points;
          masks' = THCudaTensor_newContiguous masks;
          tfms' = THCudaTensor_newContiguous tfms;
          targetpoints' = THCudaTensor_newContiguous targetpoints
      in \<lparr>la_points = tdata points', la_masks = tdata masks', la_tfms = tdata tfms',
          la_batchSize = int_of_long (tsize points ! 0),
          la_ndim = int_of_long (tsize points ! 1),
          la_nrows = int_of_long (tsize points ! 2),
          la_ncols = int_of_long (tsize points ! 3),
          la_nSE3 = int_of_long (tsize masks ! 1),
          la_nTfmParams = int_of_long (THCudaTensor_nElement tfms),
          la_ps = tstride points', la_ms = tstride masks', la_ts = tstride tfms',
          la_targetpts = tdata targetpoints'\<rparr>)"

text \<open>
  \<open>Weighted3DTransformLoss_forward_cuda\<close>. The launcher, a parameter, returns the
  squared-error sum the kernel computed. \<open>Weighted3DTransformLoss_forward_loss\<close> is the
  value of the local \<open>float loss\<close> when the function reaches its \<open>return\<close>.
\<close>

definition Weighted3DTransformLoss_forward_loss ::
  "(loss_args \<Rightarrow> real) \<Rightarrow> tensor \<Rightarrow> tensor \<Rightarrow> tensor \<Rightarrow> tensor \<Rightarrow> int \<Rightarrow> error + real" where
  "Weighted3DTransformLoss_forward_loss L points masks tfms targetpoints sizeAverage =
     (let ndim = int_of_long (tsize points ! 1)
      in if ndim \<noteq> 3 then Inl NotThreeD
         else
           let nTfmParams = int_of_long (THCudaTensor_nElement tfms)
           in if nTfmParams > 15000 then Inl CapacityExceeded
              else
                let loss = L (Weighted3DTransformLoss_forward_args points masks tfms
                                targetpoints);
                    loss = loss * 0.5;
                    loss = (if sizeAverage \<noteq> 0
                            then loss / real (THCudaTensor_nElement
                                               (THCudaTensor_newContiguous points))
                            else loss)
                in Inr loss)"

text \<open>The function is declared to return \<open>int\<close>, so \<open>return loss\<close> converts.\<close>

definition Weighted3DTransformLoss_forward_cuda ::
  "(loss_args \<Rightarrow> real) \<Rightarrow> tensor \<Rightarrow> tensor \<Rightarrow> tensor \<Rightarrow> tensor \<Rightarrow> int \<Rightarrow> error + int" where
  "Weighted3DTransformLoss_forward_cuda L points masks tfms targetpoints sizeAverage =
     (case Weighted3DTransformLoss_forward_loss L points masks tfms targetpoints sizeAverage of
        Inl e \<Rightarrow> Inl e
      | Inr loss \<Rightarrow> Inr (float_to_int loss))"

record loss_bwd_args = loss_args +
  la_lossGradPoints :: buf
  la_lossGradMasks :: buf
  la_lossGradTfms :: buf

text \<open>
  \<open>Weighted3DTransformLoss_backward_cuda\<close>: the checks, the two fills, the launch
  (a parameter returning the three gradient buffers), and the scaling of all three
  gradients by the upstream scalar, averaged when \<open>sizeAverage\<close> is set.
\<close>

definition Weighted3DTransformLoss_backward_cuda ::
  "(loss_bwd_args \<Rightarrow> buf \<times> buf \<times> buf) \<Rightarrow> tensor \<Rightarrow> tensor \<Rightarrow> tensor \<Rightarrow> tensor \<Rightarrow> tensor
     \<Rightarrow> tensor \<Rightarrow> tensor \<Rightarrow> tensor \<Rightarrow> int \<Rightarrow> error + tensor \<times> tensor \<times> tensor" where
  "Weighted3DTransformLoss_backward_cuda L points masks tfms targetpoints gradPoints
       gradMasks gradTfms gradOutput sizeAverage =
     (let batchSize = tsize points ! 0;
          ndim = tsize points ! 1;
          nrows = tsize points ! 2;
          ncols = tsize points ! 3;
          nSE3 = tsize masks ! 1
      in if ndim \<noteq> 3 then Inl NotThreeD
         else
           let nTfmParams = int_of_long (THCudaTensor_nElement tfms)
           in if nTfmParams > 15000 then Inl CapacityExceeded
              else
                let gradPoints' = THCudaTensor_fill gradPoints 0;
                    gradTfms' = THCudaTensor_fill gradTfms 0;
                    points' = THCudaTensor_newContiguous points;
                    masks' = THCudaTensor_newContiguous masks;
                    tfms' = THCudaTensor_newContiguous tfms;
                    targetpoints' = THCudaTensor_newContiguous targetpoints
                in (case L \<lparr>la_points = tdata points', la_masks = tdata masks',
                              la_tfms = tdata tfms', la_batchSize = int_of_long batchSize,
                              la_ndim = int_of_long ndim, la_nrows = int_of_long nrows,
                              la_ncols = int_of_long ncols, la_nSE3 = int_of_long nSE3,
                              la_nTfmParams = nTfmParams, la_ps = tstride points',
                              la_ms = tstride masks', la_ts = tstride tfms',
                              la_targetpts = tdata targetpoints',
                              la_lossGradPoints = tdata gradPoints',
                              la_lossGradMasks = tdata gradMasks,
                              la_lossGradTfms = tdata gradTfms'\<rparr> of
                      (gp, gm, gt) \<Rightarrow>
                        let norm = tdata gradOutput 0;
                            norm = (if sizeAverage \<noteq> 0
                                    then norm * (1 / real (THCudaTensor_nElement points'))
                                    else norm)
                        in Inr (THCudaTensor_mul (gradPoints'\<lparr>tdata := gp\<rparr>) norm,
                                THCudaTensor_mul (gradMasks\<lparr>tdata := gm\<rparr>) norm,
                                THCudaTensor_mul (gradTfms'\<lparr>tdata := gt\<rparr>) norm)))"


section \<open>A concrete scenario\<close>

text \<open>
  One batch, one cell, one transform: the point \<open>(1, 0, 0)\<close>, weight \<open>1\<close>, the
  identity rotation with translation \<open>(0, 1, 0)\<close>, and upstream gradient \<open>(1, 1, 1)\<close>.
\<close>

definition ex_points :: tensor where
  "ex_points = \<lparr>tsize = [1, 3, 1, 1], tstride = [3, 1, 1, 1], tdata = buf_of [1, 0, 0]\<rparr>"

definition ex_masks :: tensor where
  "ex_masks = \<lparr>tsize = [1, 1, 1, 1], tstride = [1, 1, 1, 1], tdata = buf_of [1]\<rparr>"

definition ex_tfms :: tensor where
  "ex_tfms = \<lparr>tsize = [1, 1, 12], tstride = [12, 12, 1],
               tdata = buf_of [1, 0, 0, 0,  0, 1, 0, 1,  0, 0, 1, 0]\<rparr>"

definition ex_gradOut :: tensor where
  "ex_gradOut = \<lparr>tsize = [1, 3, 1, 1], tstride = [3, 1, 1, 1], tdata = buf_of [1, 1, 1]\<rparr>"

text \<open>Gradient tensors of the right shapes whose storage holds stale values.\<close>

definition ex_stalePoints :: tensor where
  "ex_stalePoints = \<lparr>tsize = [1, 3, 1, 1], tstride = [3, 1, 1, 1], tdata = (\<lambda>a. 7)\<rparr>"

definition ex_staleMasks :: tensor where
  "ex_staleMasks = \<lparr>tsize = [1, 1, 1, 1], tstride = [1, 1, 1, 1], tdata = (\<lambda>a. 7)\<rparr>"

definition ex_staleTfms :: tensor where
  "ex_staleTfms = \<lparr>tsize = [1, 1, 12], tstride = [12, 12, 1], tdata = (\<lambda>a. 7)\<rparr>"

text \<open>A transform tensor of the given batch size with one transform per batch.\<close>

definition tfms_of_batch :: "nat \<Rightarrow> tensor" where
  "tfms_of_batch B = \<lparr>tsize = [B, 1, 12], tstride = [12, 12, 1], tdata = (\<lambda>a. 0)\<rparr>"

definition points_of_batch :: "nat \<Rightarrow> tensor" where
  "points_of_batch B = \<lparr>tsize = [B, 3, 1, 1], tstride = [3, 1, 1, 1], tdata = (\<lambda>a. 0)\<rparr>"

definition masks_of_batch :: "nat \<Rightarrow> tensor" where
  "masks_of_batch B = \<lparr>tsize = [B, 1, 1, 1], tstride = [1, 1, 1, 1], tdata = (\<lambda>a. 0)\<rparr>"

section \<open>The forward kernel\<close>

text \<open>
  The scalar parameters both kernels receive: the spatial extent, the number of
  transforms, and the strides of the point, mask and transform tensors. The kernels index
  with C \<open>int\<close>; offsets are natural numbers here, which agrees with the code as long as
  no offset leaves the \<open>int\<close> range.
\<close>

record kparams =
  nrows :: nat
  ncols :: nat
  nSE3 :: nat
  ps0 :: nat
  ps1 :: nat
  ps2 :: nat
  ps3 :: nat
  ms0 :: nat
  ms1 :: nat
  ms2 :: nat
  ms3 :: nat
  ts0 :: nat
  ts1 :: nat
  ts2 :: nat
  ts3 :: nat

text \<open>
  Modelled from the spec: \<open>getCoordinates\<close> of \<open>cudautils.h\<close>, which is not among the
  sources. The forward evaluator runs one task per point, indexed by batch, row and
  column; the linear task index is split row-major, batch outermost.
\<close>

definition getCoordinates :: "nat \<Rightarrow> nat \<Rightarrow> nat \<Rightarrow> nat \<times> nat \<times> nat" where
  "getCoordinates tid nr nc = (tid div (nr * nc), (tid div nc) mod nr, tid mod nc)"

text \<open>One round of the loop over the transforms: the three accumulators after transform \<open>k\<close>.\<close>

definition fwd_step ::
  "kparams \<Rightarrow> buf \<Rightarrow> buf \<Rightarrow> nat \<Rightarrow> nat \<Rightarrow> real \<times> real \<times> real \<Rightarrow> nat \<Rightarrow> real \<times> real \<times> real
     \<Rightarrow> real \<times> real \<times> real" where
  "fwd_step P masks constTfms b valm p k acc =
     (case p of (x, y, z) \<Rightarrow>
      case acc of (xt, yt, zt) \<Rightarrow>
        let w_k = masks (k * ms1 P + valm);
            T = (\<lambda>j. constTfms (b * ts0 P + k * ts1 P + j))
        in (xt + w_k * (T 0 * x + T 1 * y + T 2 * z + T 3 - x),
            yt + w_k * (T 4 * x + T 5 * y + T 6 * z + T 7 - y),
            zt + w_k * (T 8 * x + T 9 * y + T 10 * z + T 11 - z)))"

text \<open>
  \<open>computeTransformedPoints\<close> for the thread \<open>threadIdx\<close> of block \<open>blockIdx\<close>: the
  output buffer after the thread has run.
\<close>

definition computeTransformedPoints ::
  "kparams \<Rightarrow> nat \<Rightarrow> buf \<Rightarrow> buf \<Rightarrow> buf \<Rightarrow> nat \<Rightarrow> nat \<Rightarrow> nat \<Rightarrow> buf \<Rightarrow> buf" where
  "computeTransformedPoints P npoints points masks constTfms blockIdx blockDim threadIdx
       tfmpoints =
     (let tid = blockIdx * blockDim + threadIdx
      in if tid \<ge> npoints then tfmpoints
         else
           case getCoordinates tid (nrows P) (ncols P) of (b, r, c) \<Rightarrow>
             let valp = b * ps0 P + r * ps2 P + c * ps3 P;
                 x = points (0 * ps1 P + valp);
                 y = points (1 * ps1 P + valp);
                 z = points (2 * ps1 P + valp);
                 valm = b * ms0 P + r * ms2 P + c * ms3 P
             in case fold (fwd_step P masks constTfms b valm (x, y, z)) [0..<nSE3 P] (x, y, z)
                of (xt, yt, zt) \<Rightarrow>
                  tfmpoints(0 * ps1 P + valp := xt, 1 * ps1 P + valp := yt,
                            2 * ps1 P + valp := zt))"

text \<open>Staging into constant memory: the first \<open>n\<close> floats of \<open>tfms\<close> replace those of \<open>constTfms\<close>.\<close>

definition cudaMemcpyToSymbol :: "buf \<Rightarrow> buf \<Rightarrow> nat \<Rightarrow> buf" where
  "cudaMemcpyToSymbol constTfms tfms n = (\<lambda>i. if i < n then tfms i else constTfms i)"

definition kparams_of :: "nat \<Rightarrow> nat \<Rightarrow> nat \<Rightarrow> nat list \<Rightarrow> nat list \<Rightarrow> nat list \<Rightarrow> kparams" where
  "kparams_of nr nc nse3 ps ms ts =
     \<lparr>nrows = nr, ncols = nc, nSE3 = nse3,
      ps0 = ps ! 0, ps1 = ps ! 1, ps2 = ps ! 2, ps3 = ps ! 3,
      ms0 = ms ! 0, ms1 = ms ! 1, ms2 = ms ! 2, ms3 = ms ! 3,
      ts0 = ts ! 0, ts1 = ts ! 1, ts2 = ts ! 2, ts3 = ts ! 3\<rparr>"

text \<open>
  \<open>NTfm3D_ForwardLauncher\<close>: stage the transforms, then run a one-dimensional grid of
  \<open>ceil(npoints / 256)\<close> blocks of 256 threads. The threads of a launch write disjoint
  cells, so running them one after the other gives the buffer the launch leaves.
  \<open>constTfms0\<close> is what constant memory held before the call.
\<close>

definition NTfm3D_ForwardLauncher ::
  "buf \<Rightarrow> buf \<Rightarrow> buf \<Rightarrow> buf \<Rightarrow> nat \<Rightarrow> nat \<Rightarrow> nat \<Rightarrow> nat \<Rightarrow> nat \<Rightarrow> nat \<Rightarrow> nat list \<Rightarrow> nat list
     \<Rightarrow> nat list \<Rightarrow> buf \<Rightarrow> buf" where
  "NTfm3D_ForwardLauncher points masks tfms tfmpoints batchSize ndim nr nc nse3 nTfmParams
       ps ms ts constTfms0 =
     (let constTfms = cudaMemcpyToSymbol constTfms0 tfms nTfmParams;
          npoints = batchSize * nr * nc;
          numBlocks = nat \<lceil>real npoints * (1 / 256)\<rceil>;
          P = kparams_of nr nc nse3 ps ms ts
      in fold (\<lambda>blockIdx.
                 fold (computeTransformedPoints P npoints points masks constTfms blockIdx 256)
                   [0..<256])
           [0..<numBlocks] tfmpoints)"


section \<open>What the operator is to compute\<close>

text \<open>
  Element \<open>[b, i, r, c]\<close> of a row-major tensor whose last three extents are
  \<open>N1\<close>, \<open>N2\<close>, \<open>N3\<close>, and entry \<open>j\<close> of transform \<open>k\<close> of batch \<open>b\<close>.
\<close>

definition at4 :: "buf \<Rightarrow> nat \<Rightarrow> nat \<Rightarrow> nat \<Rightarrow> nat \<Rightarrow> nat \<Rightarrow> nat \<Rightarrow> nat \<Rightarrow> real" where
  "at4 m N1 N2 N3 b i r c = m (b * (N1 * N2 * N3) + i * (N2 * N3) + r * N3 + c)"

definition tfm_at :: "buf \<Rightarrow> nat \<Rightarrow> nat \<Rightarrow> nat \<Rightarrow> nat \<Rightarrow> real" where
  "tfm_at m K b k j = m (b * (K * 12) + k * 12 + j)"

text \<open>
  The inputs of the claims: points \<open>B \<times> 3 \<times> R \<times> C\<close>, masks \<open>B \<times> K \<times> R \<times> C\<close> and transforms
  \<open>B \<times> K \<times> 12\<close>, each laid out row-major as the entry points normalise them, with every
  element count within the range of a C \<open>int\<close>.
\<close>

definition valid_input ::
  "nat \<Rightarrow> nat \<Rightarrow> nat \<Rightarrow> nat \<Rightarrow> nat list \<Rightarrow> nat list \<Rightarrow> nat list \<Rightarrow> nat \<Rightarrow> bool" where
  "valid_input B K R C ps ms ts nTfmParams =
     (ps = [3 * R * C, R * C, C, 1] \<and> ms = [K * R * C, R * C, C, 1]
      \<and> take 2 ts = [K * 12, 12] \<and> nTfmParams = B * K * 12 \<and> nTfmParams \<le> 15000
      \<and> B * 3 * R * C < 2 ^ 31 \<and> B * K * R * C < 2 ^ 31)"

text \<open>
  The blended point of the specification, coordinate \<open>i\<close>:
  \<open>out = p + \<Sum>\<^sub>k w\<^sub>k * (R\<^sub>k p + t\<^sub>k - p)\<close>, where row \<open>i\<close> of transform \<open>k\<close> is
  \<open>T k (4 i), T k (4 i + 1), T k (4 i + 2)\<close> with translation entry \<open>T k (4 i + 3)\<close>.
\<close>

definition blend :: "(nat \<Rightarrow> real) \<Rightarrow> (nat \<Rightarrow> real) \<Rightarrow> (nat \<Rightarrow> nat \<Rightarrow> real) \<Rightarrow> nat \<Rightarrow> nat \<Rightarrow> real" where
  "blend p w T K i =
     p i + (\<Sum>k<K. w k * (T k (4 * i) * p 0 + T k (4 * i + 1) * p 1 + T k (4 * i + 2) * p 2
                          + T k (4 * i + 3) - p i))"


section \<open>Flow and visibility labels\<close>

text \<open>C's \<open>round\<close>: to the nearest integer, halves away from zero.\<close>

definition c_round :: "real \<Rightarrow> real" where
  "c_round x = (if 0 \<le> x then of_int \<lfloor>x + 1 / 2\<rfloor> else of_int \<lceil>x - 1 / 2\<rceil>)"

text \<open>
  The pixel a projected coordinate falls on: \<open>(int) round((p / z) * f + c)\<close>. For
  \<open>z = 0\<close> the quotient is an infinity or NaN, whose conversion to \<open>int\<close> x86 answers with
  the most negative \<open>int\<close>, as it does for every value out of range.
\<close>

definition project_pix :: "real \<Rightarrow> real \<Rightarrow> real \<Rightarrow> real \<Rightarrow> int" where
  "project_pix p z f c = (if z = 0 then - (2 ^ 31) else float_to_int (c_round ((p / z) * f + c)))"

text \<open>
  The integers a loop \<open>for (t = lo; t < lo + winsize; t++)\<close> visits, \<open>winsize\<close> being a
  float.
\<close>

definition window :: "int \<Rightarrow> real \<Rightarrow> int list" where
  "window lo winsize = [lo..lo + \<lceil>winsize\<rceil> - 1]"

text \<open>The inputs \<open>compute_visibility_and_flows\<close> only reads.\<close>

record flow_args =
  fa_cloud1 :: buf
  fa_cloud2 :: buf
  fa_local1 :: buf
  fa_local2 :: buf
  fa_label1 :: bytebuf
  fa_label2 :: bytebuf
  fa_poses2 :: buf
  fa_cs :: "nat list"
  fa_ls :: "nat list"
  fa_ps :: "nat list"
  fa_fx :: real
  fa_fy :: real
  fa_cx :: real
  fa_cy :: real
  fa_threshold :: real
  fa_winsize :: real
  fa_batchsize :: nat
  fa_nrows :: nat
  fa_ncols :: nat

text \<open>
  The body of the two inner loops: one candidate pixel \<open>(tr, tc)\<close> of the search window.
  The state is \<open>(mindist, mintr, mintc)\<close>; \<open>None\<close> stands for \<open>HUGE_VALF\<close>.
\<close>

definition search_step ::
  "flow_args \<Rightarrow> nat \<Rightarrow> 8 word \<Rightarrow> real \<times> real \<times> real \<Rightarrow> real \<Rightarrow> int \<Rightarrow> int
     \<Rightarrow> real option \<times> int \<times> int \<Rightarrow> real option \<times> int \<times> int" where
  "search_step A b mi li sqthresh tr tc st =
     (if tr < 0 \<or> tr \<ge> int (fa_nrows A) \<or> tc < 0 \<or> tc \<ge> int (fa_ncols A) then st
      else
        case li of (xi, yi, zi) \<Rightarrow>
        let valtc = b * (fa_cs A ! 0) + nat tr * (fa_cs A ! 2) + nat tc * (fa_cs A ! 3);
            xt = fa_local2 A (0 * (fa_cs A ! 1) + valtc);
            yt = fa_local2 A (1 * (fa_cs A ! 1) + valtc);
            zt = fa_local2 A (2 * (fa_cs A ! 1) + valtc);
            mt = fa_label2 A (b * (fa_ls A ! 0) + nat tr * (fa_ls A ! 2) + nat tc * (fa_ls A ! 3))
        in if mt \<noteq> mi then st
           else
             let dist = (xi - xt)\<^sup>2 + (yi - yt)\<^sup>2 + (zi - zt)\<^sup>2
             in case st of (mindist, mintr, mintc) \<Rightarrow>
                  if (case mindist of None \<Rightarrow> True | Some d \<Rightarrow> dist < d) \<and> dist < sqthresh
                  then (Some dist, tr, tc)
                  else st)"

text \<open>
  The body of the loop over the cells of \<open>compute_visibility_and_flows\<close>: the state is
  the pair of the visibility and the flow buffer.
\<close>

definition visflow_cell ::
  "flow_args \<Rightarrow> nat \<Rightarrow> nat \<Rightarrow> nat \<Rightarrow> bytebuf \<times> buf \<Rightarrow> bytebuf \<times> buf" where
  "visflow_cell A b r c st =
     (case st of (visible1, flows12) \<Rightarrow>
      let sqthresh = (fa_threshold A)\<^sup>2;
          winhalfsize = float_to_int (of_int \<lfloor>fa_winsize A / 2\<rfloor>);
          valc = b * (fa_cs A ! 0) + r * (fa_cs A ! 2) + c * (fa_cs A ! 3);
          xi = fa_local1 A (0 * (fa_cs A ! 1) + valc);
          yi = fa_local1 A (1 * (fa_cs A ! 1) + valc);
          zi = fa_local1 A (2 * (fa_cs A ! 1) + valc);
          vis = b * (fa_ls A ! 0) + r * (fa_ls A ! 2) + c * (fa_ls A ! 3);
          mi = fa_label1 A vis
      in if mi = 0 then (visible1(vis := 1), flows12)
         else
           let T = (\<lambda>j. fa_poses2 A (b * (fa_ps A ! 0) + unat mi * (fa_ps A ! 1) + j));
               xp = T 0 * xi + T 1 * yi + T 2 * zi + T 3;
               yp = T 4 * xi + T 5 * yi + T 6 * zi + T 7;
               zp = T 8 * xi + T 9 * yi + T 10 * zi + T 11;
               cpix = project_pix xp zp (fa_fx A) (fa_cx A);
               rpix = project_pix yp zp (fa_fy A) (fa_cy A)
           in if rpix < 0 \<or> rpix \<ge> int (fa_nrows A) \<or> cpix < 0 \<or> cpix \<ge> int (fa_ncols A)
              then (visible1, flows12)
              else
                case fold (\<lambda>tr. fold (search_step A b mi (xi, yi, zi) sqthresh tr)
                                   (window (cpix - winhalfsize) (fa_winsize A)))
                       (window (rpix - winhalfsize) (fa_winsize A)) (None, - 1, - 1)
                of (mindist, mintr, mintc) \<Rightarrow>
                  if mintr \<noteq> - 1 \<and> mintc \<noteq> - 1
                  then
                    let x1 = fa_cloud1 A (0 * (fa_cs A ! 1) + valc);
                        y1 = fa_cloud1 A (1 * (fa_cs A ! 1) + valc);
                        z1 = fa_cloud1 A (2 * (fa_cs A ! 1) + valc);
                        valtc = b * (fa_cs A ! 0) + nat mintr * (fa_cs A ! 2)
                                + nat mintc * (fa_cs A ! 3);
                        x2 = fa_cloud2 A (0 * (fa_cs A ! 1) + valtc);
                        y2 = fa_cloud2 A (1 * (fa_cs A ! 1) + valtc);
                        z2 = fa_cloud2 A (2 * (fa_cs A ! 1) + valtc)
                    in (visible1(vis := 1),
                        flows12(0 * (fa_cs A ! 1) + valc := x2 - x1,
                                1 * (fa_cs A ! 1) + valc := y2 - y1,
                                2 * (fa_cs A ! 1) + valc := z2 - z1))
                  else (visible1, flows12))"

definition compute_visibility_and_flows :: "flow_args \<Rightarrow> bytebuf \<times> buf \<Rightarrow> bytebuf \<times> buf" where
  "compute_visibility_and_flows A st =
     fold (\<lambda>b. fold (\<lambda>r. fold (\<lambda>c. visflow_cell A b r c) [0..<fa_ncols A]) [0..<fa_nrows A])
       [0..<fa_batchsize A] st"

text \<open>
  The tensors \<open>ComputeFlowAndVisibility_Pts_float\<close> receives, as they are once made
  contiguous: storage, extents of the clouds, and the strides of the first cloud, the
  first label image and the first pose tensor, which the routine uses for all of them.
\<close>

record flowvis_input =
  fi_cloud_1 :: buf
  fi_cloud_2 :: buf
  fi_label_1 :: bytebuf
  fi_label_2 :: bytebuf
  fi_poses_1 :: buf
  fi_poses_2 :: buf
  fi_poseinvs_1 :: buf
  fi_poseinvs_2 :: buf
  fi_batchsize :: nat
  fi_nrows :: nat
  fi_ncols :: nat
  fi_cs :: "nat list"
  fi_ls :: "nat list"
  fi_ps :: "nat list"
  fi_fx :: real
  fi_fy :: real
  fi_cx :: real
  fi_cy :: real
  fi_threshold :: real
  fi_winsize :: real

record flowvis_output =
  fo_fwdflows :: buf
  fo_bwdflows :: buf
  fo_fwdvisibility :: bytebuf
  fo_bwdvisibility :: bytebuf
  fo_local_1 :: buf
  fo_local_2 :: buf

text \<open>A fill of the first \<open>n\<close> elements, the elements of a contiguous tensor.\<close>

definition fill_first :: "nat \<Rightarrow> 'a \<Rightarrow> (nat \<Rightarrow> 'a) \<Rightarrow> (nat \<Rightarrow> 'a)" where
  "fill_first n v m = (\<lambda>a. if a < n then v else m a)"

text \<open>The body of the first loop: the local coordinates of one cell at both times.\<close>

definition local_cell :: "flowvis_input \<Rightarrow> nat \<Rightarrow> nat \<Rightarrow> nat \<Rightarrow> buf \<times> buf \<Rightarrow> buf \<times> buf" where
  "local_cell I b r c st =
     (case st of (local1, local2) \<Rightarrow>
      let valc = b * (fi_cs I ! 0) + r * (fi_cs I ! 2) + c * (fi_cs I ! 3);
          s1 = fi_cs I ! 1;
          x1 = fi_cloud_1 I (0 * s1 + valc);
          y1 = fi_cloud_1 I (1 * s1 + valc);
          z1 = fi_cloud_1 I (2 * s1 + valc);
          l1 = fi_label_1 I (b * (fi_ls I ! 0) + r * (fi_ls I ! 2) + c * (fi_ls I ! 3));
          T1 = (\<lambda>j. fi_poseinvs_1 I (b * (fi_ps I ! 0) + unat l1 * (fi_ps I ! 1) + j));
          local1 = local1(0 * s1 + valc := T1 0 * x1 + T1 1 * y1 + T1 2 * z1 + T1 3,
                          1 * s1 + valc := T1 4 * x1 + T1 5 * y1 + T1 6 * z1 + T1 7,
                          2 * s1 + valc := T1 8 * x1 + T1 9 * y1 + T1 10 * z1 + T1 11);
          x2 = fi_cloud_2 I (0 * s1 + valc);
          y2 = fi_cloud_2 I (1 * s1 + valc);
          z2 = fi_cloud_2 I (2 * s1 + valc);
          l2 = fi_label_2 I (b * (fi_ls I ! 0) + r * (fi_ls I ! 2) + c * (fi_ls I ! 3));
          T2 = (\<lambda>j. fi_poseinvs_2 I (b * (fi_ps I ! 0) + unat l2 * (fi_ps I ! 1) + j));
          local2 = local2(0 * s1 + valc := T2 0 * x2 + T2 1 * y2 + T2 2 * z2 + T2 3,
                          1 * s1 + valc := T2 4 * x2 + T2 5 * y2 + T2 6 * z2 + T2 7,
                          2 * s1 + valc := T2 8 * x2 + T2 9 * y2 + T2 10 * z2 + T2 11)
      in (local1, local2))"

text \<open>
  \<open>ComputeFlowAndVisibility_Pts_float\<close>: the four output tensors are filled with zero,
  the local coordinates are computed into the two scratch tensors, and the visibility
  and flow pass runs once from \<open>t\<close> to \<open>t + 1\<close> and once back. The arguments after the input
  are the storage of the six output and scratch tensors as the caller left them.
\<close>

definition ComputeFlowAndVisibility_Pts_float ::
  "flowvis_input \<Rightarrow> buf \<Rightarrow> buf \<Rightarrow> bytebuf \<Rightarrow> bytebuf \<Rightarrow> buf \<Rightarrow> buf \<Rightarrow> flowvis_output" where
  "ComputeFlowAndVisibility_Pts_float I fwdflows bwdflows fwdvisibility bwdvisibility
       local_1 local_2 =
     (let B = fi_batchsize I; R = fi_nrows I; C = fi_ncols I;
          fwdvisibility = fill_first (B * 1 * R * C) 0 fwdvisibility;
          bwdvisibility = fill_first (B * 1 * R * C) 0 bwdvisibility;
          fwdflows = fill_first (B * 3 * R * C) 0 fwdflows;
          bwdflows = fill_first (B * 3 * R * C) 0 bwdflows
      in case fold (\<lambda>b. fold (\<lambda>r. fold (\<lambda>c. local_cell I b r c) [0..<C]) [0..<R]) [0..<B]
                (local_1, local_2)
         of (local1, local2) \<Rightarrow>
           case compute_visibility_and_flows
                  \<lparr>fa_cloud1 = fi_cloud_1 I, fa_cloud2 = fi_cloud_2 I, fa_local1 = local1,
                   fa_local2 = local2, fa_label1 = fi_label_1 I, fa_label2 = fi_label_2 I,
                   fa_poses2 = fi_poses_2 I, fa_cs = fi_cs I, fa_ls = fi_ls I, fa_ps = fi_ps I,
                   fa_fx = fi_fx I, fa_fy = fi_fy I, fa_cx = fi_cx I, fa_cy = fi_cy I,
                   fa_threshold = fi_threshold I, fa_winsize = fi_winsize I,
                   fa_batchsize = B, fa_nrows = R, fa_ncols = C\<rparr>
                  (fwdvisibility, fwdflows)
           of (fwdvis, fwdfl) \<Rightarrow>
             case compute_visibility_and_flows
                    \<lparr>fa_cloud1 = fi_cloud_2 I, fa_cloud2 = fi_cloud_1 I, fa_local1 = local2,
                     fa_local2 = local1, fa_label1 = fi_label_2 I, fa_label2 = fi_label_1 I,
                     fa_poses2 = fi_poses_1 I, fa_cs = fi_cs I, fa_ls = fi_ls I,
                     fa_ps = fi_ps I, fa_fx = fi_fx I, fa_fy = fi_fy I, fa_cx = fi_cx I,
                     fa_cy = fi_cy I, fa_threshold = fi_threshold I,
                     fa_winsize = fi_winsize I, fa_batchsize = B, fa_nrows = R,
                     fa_ncols = C\<rparr>
                    (bwdvisibility, bwdflows)
             of (bwdvis, bwdfl) \<Rightarrow>
               \<lparr>fo_fwdflows = fwdfl, fo_bwdflows = bwdfl, fo_fwdvisibility = fwdvis,
                fo_bwdvisibility = bwdvis, fo_local_1 = local1, fo_local_2 = local2\<rparr>)"


text \<open>
  A one-cell input of the flow routine whose only point is background at both times.
\<close>

definition ex_flow_input :: flowvis_input where
  "ex_flow_input =
     \<lparr>fi_cloud_1 = buf_of [1, 2, 3], fi_cloud_2 = buf_of [2, 2, 3],
      fi_label_1 = (\<lambda>a. 0), fi_label_2 = (\<lambda>a. 0),
      fi_poses_1 = (\<lambda>a. 0), fi_poses_2 = (\<lambda>a. 0),
      fi_poseinvs_1 = (\<lambda>a. 0), fi_poseinvs_2 = (\<lambda>a. 0),
      fi_batchsize = 1, fi_nrows = 1, fi_ncols = 1,
      fi_cs = [3, 1, 1, 1], fi_ls = [1, 1, 1, 1], fi_ps = [12, 12, 4, 1],
      fi_fx = 1, fi_fy = 1, fi_cx = 0, fi_cy = 0, fi_threshold = 1, fi_winsize = 3\<rparr>"


section \<open>The backward kernel\<close>

text \<open>
  Modelled from the spec: \<open>warpReduceSum\<close> of \<open>cudautils.h\<close>, which is not among the
  sources. The warp-level finish is a lock-step reduction of five halvings over the 32
  lanes of a warp: at offsets 16, 8, 4, 2 and 1 every lane adds the value of the lane
  that many places above it (its own where there is none). The function gives the value
  each lane ends with; lane 0 holds the total.
\<close>

definition shfl_down_add :: "nat \<Rightarrow> (nat \<Rightarrow> real) \<Rightarrow> nat \<Rightarrow> real" where
  "shfl_down_add off v = (\<lambda>lane. v lane + (if lane + off < 32 then v (lane + off) else v lane))"

definition warpReduceSum :: "(nat \<Rightarrow> real) \<Rightarrow> nat \<Rightarrow> real" where
  "warpReduceSum v = fold shfl_down_add [16, 8, 4, 2, 1] v"

text \<open>
  What a block of \<open>computeGradients\<close> reads only: the kernel parameters, the input
  buffers, constant memory, and the block's dimensions and index.
\<close>

record kenv =
  e_P :: kparams
  e_points :: buf
  e_masks :: buf
  e_gradTfmpoints :: buf
  e_constTfms :: buf
  blockDim_x :: nat
  blockDim_y :: nat
  blockIdx_x :: nat
  blockIdx_y :: nat
  blockIdx_z :: nat

text \<open>
  What a block writes: the three gradient buffers in global memory, its shared memory
  \<open>sharedData\<close>, and the registers \<open>gx, gy, gz\<close> of each of its threads, by thread
  id. \<open>sharedGradTfms\<close> is \<open>sharedData\<close> from 0, \<open>sharedGradTfmResults\<close> is \<open>sharedData\<close>
  from \<open>nSharedGrads\<close>.
\<close>

record kstate =
  st_gradPoints :: buf
  st_gradMasks :: buf
  st_gradTfms :: buf
  st_sharedData :: buf
  st_regs :: "nat \<Rightarrow> real \<times> real \<times> real"

definition nThreads :: "kenv \<Rightarrow> nat" where
  "nThreads E = blockDim_x E * blockDim_y E"

definition nSharedGrads :: "kenv \<Rightarrow> nat" where
  "nSharedGrads E = nThreads E * 12"

definition thread_id :: "kenv \<Rightarrow> nat \<times> nat \<Rightarrow> nat" where
  "thread_id E t = (case t of (tx, ty) \<Rightarrow> tx + ty * blockDim_x E)"

definition thread_col :: "kenv \<Rightarrow> nat \<times> nat \<Rightarrow> nat" where
  "thread_col E t = (case t of (tx, ty) \<Rightarrow> blockIdx_x E * blockDim_x E + tx)"

definition thread_row :: "kenv \<Rightarrow> nat \<times> nat \<Rightarrow> nat" where
  "thread_row E t = (case t of (tx, ty) \<Rightarrow> blockIdx_y E * blockDim_y E + ty)"

definition withinLimits :: "kenv \<Rightarrow> nat \<times> nat \<Rightarrow> bool" where
  "withinLimits E t = (thread_col E t < ncols (e_P E) \<and> thread_row E t < nrows (e_P E))"

definition valp_of :: "kenv \<Rightarrow> nat \<times> nat \<Rightarrow> nat" where
  "valp_of E t = blockIdx_z E * ps0 (e_P E) + thread_row E t * ps2 (e_P E)
                 + thread_col E t * ps3 (e_P E)"

definition valm_of :: "kenv \<Rightarrow> nat \<times> nat \<Rightarrow> nat" where
  "valm_of E t = blockIdx_z E * ms0 (e_P E) + thread_row E t * ms2 (e_P E)
                 + thread_col E t * ms3 (e_P E)"

text \<open>The threads of a block, \<open>threadIdx.x\<close> running fastest.\<close>

definition block_threads :: "kenv \<Rightarrow> (nat \<times> nat) list" where
  "block_threads E =
     concat (map (\<lambda>ty. map (\<lambda>tx. (tx, ty)) [0..<blockDim_x E]) [0..<blockDim_y E])"

text \<open>
  Before the loop: a thread inside the limits reads its point and upstream gradient and
  starts \<open>gx, gy, gz\<close> from the upstream gradient. A thread outside reads nothing; its
  registers are never stored.
\<close>

definition init_thread :: "kenv \<Rightarrow> nat \<times> nat \<Rightarrow> kstate \<Rightarrow> kstate" where
  "init_thread E t st =
     (if withinLimits E t
      then
        let valp = valp_of E t;
            gxt = e_gradTfmpoints E (0 * ps1 (e_P E) + valp);
            gyt = e_gradTfmpoints E (1 * ps1 (e_P E) + valp);
            gzt = e_gradTfmpoints E (2 * ps1 (e_P E) + valp)
        in st\<lparr>st_regs := (st_regs st)(thread_id E t := (gxt, gyt, gzt))\<rparr>
      else st)"

text \<open>
  The loop \<open>for (i = tid; i < nSharedGrads; i += nThreads) sharedGradTfms[i] = 0\<close>.
  A block has at least one thread, so the step is positive.
\<close>

function zero_loop :: "nat \<Rightarrow> nat \<Rightarrow> nat \<Rightarrow> buf \<Rightarrow> buf" where
  "zero_loop n step i sh =
     (if i < n \<and> 0 < step then zero_loop n step (i + step) (sh(i := 0)) else sh)"
  by pat_completeness auto
termination
  by (relation "measure (\<lambda>(n, step, i, sh). n - i)") auto

declare zero_loop.simps [simp del]

text \<open>
  The first part of the body of the loop over the transforms, up to the first barrier:
  the thread's contribution for transform \<open>k\<close>.
\<close>

definition grad_thread :: "kenv \<Rightarrow> nat \<Rightarrow> nat \<times> nat \<Rightarrow> kstate \<Rightarrow> kstate" where
  "grad_thread E k t st =
     (let P = e_P E; tid = thread_id E t; n = nThreads E
      in if withinLimits E t
         then
           let valp = valp_of E t;
               x = e_points E (0 * ps1 P + valp);
               y = e_points E (1 * ps1 P + valp);
               z = e_points E (2 * ps1 P + valp);
               gxt = e_gradTfmpoints E (0 * ps1 P + valp);
               gyt = e_gradTfmpoints E (1 * ps1 P + valp);
               gzt = e_gradTfmpoints E (2 * ps1 P + valp);
               valm = valm_of E t;
               w_k = e_masks E (k * ms1 P + valm);
               T = (\<lambda>j. e_constTfms E (blockIdx_z E * ts0 P + k * ts1 P + j));
               tx = T 0 * gxt + T 4 * gyt + T 8 * gzt;
               ty = T 1 * gxt + T 5 * gyt + T 9 * gzt;
               tz = T 2 * gxt + T 6 * gyt + T 10 * gzt
           in case st_regs st tid of (gx, gy, gz) \<Rightarrow>
                st\<lparr>st_regs := (st_regs st)
                       (tid := (gx + w_k * (tx - gxt), gy + w_k * (ty - gyt),
                                gz + w_k * (tz - gzt))),
                   st_gradMasks := (st_gradMasks st)
                       (k * ms1 P + valm :=
                          x * tx + y * ty + z * tz
                          + gxt * (T 3 - x) + gyt * (T 7 - y) + gzt * (T 11 - z)),
                   st_sharedData := (st_sharedData st)
                       (0 * n + tid := w_k * x * gxt,
                        1 * n + tid := w_k * y * gxt,
                        2 * n + tid := w_k * z * gxt,
                        4 * n + tid := w_k * x * gyt,
                        5 * n + tid := w_k * y * gyt,
                        6 * n + tid := w_k * z * gyt,
                        8 * n + tid := w_k * x * gzt,
                        9 * n + tid := w_k * y * gzt,
                        10 * n + tid := w_k * z * gzt,
                        3 * n + tid := w_k * gxt,
                        7 * n + tid := w_k * gyt,
                        11 * n + tid := w_k * gzt)\<rparr>
         else st\<lparr>st_sharedData := zero_loop (nSharedGrads E) n tid (st_sharedData st)\<rparr>)"

text \<open>
  One thread in one round of the tree reduction, between two barriers, on the shared
  array: the first half of the threads folds the first six parameters, the second half
  the last six.
\<close>

definition reduce_slots :: "nat \<Rightarrow> nat \<Rightarrow> nat \<Rightarrow> buf \<Rightarrow> buf" where
  "reduce_slots n s tid sharedGradTfms =
     (let nThreads2 = n div 2
      in if tid < s
         then fold (\<lambda>i sh. sh(i * n + tid := sh (i * n + tid) + sh (i * n + tid + s)))
                [0..<6] sharedGradTfms
         else if tid \<ge> nThreads2 \<and> tid - nThreads2 < s
         then fold (\<lambda>i sh. sh(i * n + tid - nThreads2 :=
                                 sh (i * n + tid - nThreads2)
                                 + sh (i * n + tid - nThreads2 + s)))
                [6..<12] sharedGradTfms
         else sharedGradTfms)"

definition reduce_thread :: "kenv \<Rightarrow> nat \<Rightarrow> nat \<times> nat \<Rightarrow> kstate \<Rightarrow> kstate" where
  "reduce_thread E s t st =
     st\<lparr>st_sharedData := reduce_slots (nThreads E) s (thread_id E t) (st_sharedData st)\<rparr>"

text \<open>The loop \<open>for (s = nThreads2; s >= 32; s >>= 1)\<close>, a barrier after each round.\<close>

function reduce_loop :: "kenv \<Rightarrow> nat \<Rightarrow> kstate \<Rightarrow> kstate" where
  "reduce_loop E s st =
     (if s \<ge> 32 then reduce_loop E (s div 2) (fold (reduce_thread E s) (block_threads E) st)
      else st)"
  by pat_completeness auto
termination
  by (relation "measure (\<lambda>(E, s, st). s)") auto

declare reduce_loop.simps [simp del]

text \<open>
  The warp-level finish by the threads \<open>tid < 32\<close>, which run in lock-step: for each of
  the 12 parameters thread 0 stores the warp's sum as result \<open>k * 12 + i\<close>.
\<close>

definition warp_finish :: "kenv \<Rightarrow> nat \<Rightarrow> kstate \<Rightarrow> kstate" where
  "warp_finish E k st =
     fold (\<lambda>i st.
             let sum = warpReduceSum (\<lambda>lane. st_sharedData st (i * nThreads E + lane)) 0
             in st\<lparr>st_sharedData := (st_sharedData st)(nSharedGrads E + (k * 12 + i) := sum)\<rparr>)
       [0..<12] st"

text \<open>One round of the loop over the transforms, for the whole block.\<close>

definition transform_round :: "kenv \<Rightarrow> nat \<Rightarrow> kstate \<Rightarrow> kstate" where
  "transform_round E k st =
     warp_finish E k
       (reduce_loop E (nThreads E div 2) (fold (grad_thread E k) (block_threads E) st))"

text \<open>
  The loop \<open>for (i = tid; i < nSharedGradResults; i += nThreads) atomicAdd(gradTfms + b*ts0 + i,
  sharedGradTfmResults[i])\<close>.
\<close>

function atomicAdd_loop :: "nat \<Rightarrow> nat \<Rightarrow> nat \<Rightarrow> buf \<Rightarrow> nat \<Rightarrow> buf \<Rightarrow> buf" where
  "atomicAdd_loop n step base res i gt =
     (if i < n \<and> 0 < step
      then atomicAdd_loop n step base res (i + step) (gt(base + i := gt (base + i) + res i))
      else gt)"
  by pat_completeness auto
termination
  by (relation "measure (\<lambda>(n, step, base, res, i, gt). n - i)") auto

declare atomicAdd_loop.simps [simp del]

text \<open>After the last barrier: the thread's share of the atomic adds, and its point gradient.\<close>

definition final_thread :: "kenv \<Rightarrow> nat \<times> nat \<Rightarrow> kstate \<Rightarrow> kstate" where
  "final_thread E t st =
     (let P = e_P E; tid = thread_id E t;
          st = st\<lparr>st_gradTfms :=
                    atomicAdd_loop (nSE3 P * 12) (nThreads E) (blockIdx_z E * ts0 P)
                      (\<lambda>i. st_sharedData st (nSharedGrads E + i)) tid (st_gradTfms st)\<rparr>
      in if withinLimits E t
         then
           let valp = valp_of E t
           in case st_regs st tid of (gx, gy, gz) \<Rightarrow>
                st\<lparr>st_gradPoints := (st_gradPoints st)
                       (0 * ps1 P + valp := gx, 1 * ps1 P + valp := gy, 2 * ps1 P + valp := gz)\<rparr>
         else st)"

text \<open>
  \<open>computeGradients\<close> for one block. Between two barriers the threads touch disjoint
  shared and global cells, so each phase runs them one after the other.
\<close>

definition computeGradients_block :: "kenv \<Rightarrow> kstate \<Rightarrow> kstate" where
  "computeGradients_block E st =
     fold (final_thread E) (block_threads E)
       (fold (transform_round E) [0..<nSE3 (e_P E)]
          (fold (init_thread E) (block_threads E) st))"

text \<open>
  A launch \<open>computeGradients<<<blocks, threads, ...>>>\<close> with \<open>blocks = (gx, gy, gz)\<close> and
  \<open>threads = (dx, dy, 1)\<close>. Every block starts with whatever its shared memory and
  registers hold: \<open>junk\<close> gives them per block. The result is the three gradient buffers
  \<open>(gradPoints, gradMasks, gradTfms)\<close>.
\<close>

definition computeGradients_launch ::
  "nat \<times> nat \<times> nat \<Rightarrow> nat \<times> nat \<Rightarrow> kparams \<Rightarrow> buf \<Rightarrow> buf \<Rightarrow> buf \<Rightarrow> buf
     \<Rightarrow> (nat \<times> nat \<times> nat \<Rightarrow> buf \<times> (nat \<Rightarrow> real \<times> real \<times> real))
     \<Rightarrow> buf \<times> buf \<times> buf \<Rightarrow> buf \<times> buf \<times> buf" where
  "computeGradients_launch blocks threads P points masks gradTfmpoints constTfms junk grads =
     (case blocks of (gx, gy, gz) \<Rightarrow>
      case threads of (dx, dy) \<Rightarrow>
      case grads of (gradPoints, gradMasks, gradTfms) \<Rightarrow>
        let st = fold (\<lambda>bz. fold (\<lambda>by. fold (\<lambda>bx st.
                   computeGradients_block
                     \<lparr>e_P = P, e_points = points, e_masks = masks,
                      e_gradTfmpoints = gradTfmpoints, e_constTfms = constTfms,
                      blockDim_x = dx, blockDim_y = dy,
                      blockIdx_x = bx, blockIdx_y = by, blockIdx_z = bz\<rparr>
                     (st\<lparr>st_sharedData := fst (junk (bx, by, bz)),
                         st_regs := snd (junk (bx, by, bz))\<rparr>))
                   [0..<gx]) [0..<gy]) [0..<gz]
                   \<lparr>st_gradPoints = gradPoints, st_gradMasks = gradMasks,
                    st_gradTfms = gradTfms, st_sharedData = (\<lambda>a. 0),
                    st_regs = (\<lambda>t. (0, 0, 0))\<rparr>
        in (st_gradPoints st, st_gradMasks st, st_gradTfms st))"

text \<open>
  \<open>NTfm3D_BackwardLauncher\<close>: stage the transforms, check the shared-memory footprint of
  blocks of \<open>16 \<times> 16\<close> threads, and launch \<open>ceil(ncols / 16) \<times> ceil(nrows / 16) \<times> batchSize\<close>
  of them.
\<close>

definition NTfm3D_BackwardLauncher ::
  "buf \<Rightarrow> buf \<Rightarrow> buf \<Rightarrow> buf \<Rightarrow> buf \<Rightarrow> buf \<Rightarrow> buf \<Rightarrow> buf \<Rightarrow> nat \<Rightarrow> nat \<Rightarrow> nat \<Rightarrow> nat \<Rightarrow> nat
     \<Rightarrow> nat \<Rightarrow> nat list \<Rightarrow> nat list \<Rightarrow> nat list \<Rightarrow> buf
     \<Rightarrow> (nat \<times> nat \<times> nat \<Rightarrow> buf \<times> (nat \<Rightarrow> real \<times> real \<times> real))
     \<Rightarrow> error + buf \<times> buf \<times> buf" where
  "NTfm3D_BackwardLauncher points masks tfms tfmpoints gradPoints gradMasks gradTfms
       gradTfmpoints batchSize ndim nr nc nse3 nTfmParams ps ms ts constTfms0 junk =
     (let constTfms = cudaMemcpyToSymbol constTfms0 tfms nTfmParams;
          threads = (16, 16);
          blocks = (nat \<lceil>real nc * (1 / 16)\<rceil>, nat \<lceil>real nr * (1 / 16)\<rceil>, batchSize);
          sharedMemSize = 16 * 16 * 3 * 4 * 4 + nse3 * 3 * 4 * 4
      in if sharedMemSize > (32000 :: nat) then Inl SharedMemExceeded
         else Inr (computeGradients_launch blocks threads (kparams_of nr nc nse3 ps ms ts)
                     points masks gradTfmpoints constTfms junk
                     (gradPoints, gradMasks, gradTfms)))"


section \<open>The gradients of the specification\<close>

text \<open>
  Coordinate \<open>i\<close> of the gradient with respect to a point:
  \<open>g + \<Sum>\<^sub>k w\<^sub>k * (R\<^sub>k\<^sup>T g - g)\<close>; column \<open>i\<close> of the linear part of transform \<open>k\<close> is
  \<open>T k i, T k (4 + i), T k (8 + i)\<close>.
\<close>

definition grad_point :: "(nat \<Rightarrow> real) \<Rightarrow> (nat \<Rightarrow> real) \<Rightarrow> (nat \<Rightarrow> nat \<Rightarrow> real) \<Rightarrow> nat \<Rightarrow> nat \<Rightarrow> real" where
  "grad_point g w T K i =
     g i + (\<Sum>k<K. w k * (T k i * g 0 + T k (4 + i) * g 1 + T k (8 + i) * g 2 - g i))"

text \<open>The gradient with respect to one weight: \<open>p \<cdot> (R\<^sup>T g) + g \<cdot> (t - p)\<close>.\<close>

definition grad_mask :: "(nat \<Rightarrow> real) \<Rightarrow> (nat \<Rightarrow> real) \<Rightarrow> (nat \<Rightarrow> real) \<Rightarrow> real" where
  "grad_mask p g T =
     (\<Sum>i<3. p i * (T i * g 0 + T (4 + i) * g 1 + T (8 + i) * g 2))
     + (\<Sum>a<3. g a * (T (4 * a + 3) - p a))"

text \<open>
  The contribution of one point to entry \<open>j\<close> of a transform gradient: entry \<open>4 a + c\<close>
  of the linear part gets \<open>w * p\<^sub>c * g\<^sub>a\<close>, the translation entry \<open>4 a + 3\<close> gets \<open>w * g\<^sub>a\<close>.
\<close>

definition grad_tfm_point :: "real \<Rightarrow> (nat \<Rightarrow> real) \<Rightarrow> (nat \<Rightarrow> real) \<Rightarrow> nat \<Rightarrow> real" where
  "grad_tfm_point w p g j =
     (if j mod 4 = 3 then w * g (j div 4) else w * p (j mod 4) * g (j div 4))"

text \<open>
  The plain sum of the contributions of all cells of batch \<open>b\<close> to entry \<open>j\<close> of
  transform \<open>k\<close>.
\<close>

definition grad_tfm_sum :: "buf \<Rightarrow> buf \<Rightarrow> buf \<Rightarrow> nat \<Rightarrow> nat \<Rightarrow> nat \<Rightarrow> nat \<Rightarrow> nat \<Rightarrow> nat \<Rightarrow> real" where
  "grad_tfm_sum points masks gradTfmpoints K R C b k j =
     (\<Sum>r<R. \<Sum>c<C. grad_tfm_point (at4 masks K R C b k r c) (\<lambda>i. at4 points 3 R C b i r c)
                       (\<lambda>i. at4 gradTfmpoints 3 R C b i r c) j)"


text \<open>
  What thread \<open>t\<close> of a block holds in slot \<open>i\<close> of \<open>sharedGradTfms\<close> at the first barrier
  of round \<open>k\<close>: the contribution of its point inside the limits, zero outside.
\<close>

definition thread_contrib :: "kenv \<Rightarrow> nat \<Rightarrow> nat \<times> nat \<Rightarrow> nat \<Rightarrow> real" where
  "thread_contrib E k t i =
     (if withinLimits E t
      then grad_tfm_point (e_masks E (k * ms1 (e_P E) + valm_of E t))
             (\<lambda>j. e_points E (j * ps1 (e_P E) + valp_of E t))
             (\<lambda>j. e_gradTfmpoints E (j * ps1 (e_P E) + valp_of E t)) i
      else 0)"


text \<open>Register \<open>gx\<close>, \<open>gy\<close> or \<open>gz\<close> of a thread, by coordinate.\<close>

definition reg_coord :: "real \<times> real \<times> real \<Rightarrow> nat \<Rightarrow> real" where
  "reg_coord q i = (case q of (gx, gy, gz) \<Rightarrow> if i = 0 then gx else if i = 1 then gy else gz)"

text \<open>
  What thread \<open>t\<close> adds to coordinate \<open>i\<close> of its point gradient in round \<open>k\<close>:
  \<open>w\<^sub>k * ((R\<^sub>k\<^sup>T g)\<^sub>i - g\<^sub>i)\<close>.
\<close>

definition thread_point_term :: "kenv \<Rightarrow> nat \<Rightarrow> nat \<times> nat \<Rightarrow> nat \<Rightarrow> real" where
  "thread_point_term E k t i =
     (let g = (\<lambda>a. e_gradTfmpoints E (a * ps1 (e_P E) + valp_of E t));
          T = (\<lambda>j. e_constTfms E (blockIdx_z E * ts0 (e_P E) + k * ts1 (e_P E) + j))
      in e_masks E (k * ms1 (e_P E) + valm_of E t)
         * (T i * g 0 + T (4 + i) * g 1 + T (8 + i) * g 2 - g i))"


section \<open>The forward kernel in single precision\<close>

text \<open>
  The values of C's \<open>float\<close>, as far as overflow matters: a finite number, an infinity or
  NaN. A finite result is kept exact: the rounding of the mantissa is left out, and the
  two zeros are one value, as they are for \<open>==\<close>.
\<close>

datatype float32 = Num real | PlusInf | MinusInf | NaN

text \<open>
  Binary32 with round to nearest: an exact result whose magnitude reaches \<open>FLT_MAX\<close> plus
  half a unit in the last place, \<open>2\<^sup>1\<^sup>2\<^sup>8 - 2\<^sup>1\<^sup>0\<^sup>3\<close>, becomes an infinity.
\<close>

definition overflow_threshold :: real where
  "overflow_threshold = 2 ^ 128 - 2 ^ 103"

definition fl32 :: "real \<Rightarrow> float32" where
  "fl32 r = (if r \<ge> overflow_threshold then PlusInf
             else if r \<le> - overflow_threshold then MinusInf else Num r)"

text \<open>The finite values of the format.\<close>

fun finite32 :: "float32 \<Rightarrow> bool" where
  "finite32 (Num x) = (\<bar>x\<bar> < overflow_threshold)"
| "finite32 v = False"

text \<open>
  The operators \<open>+\<close>, \<open>*\<close> and \<open>-\<close> on \<open>float\<close>: NaN propagates, an infinity absorbs every
  finite operand, \<open>inf - inf\<close> and \<open>0 * inf\<close> are NaN.
\<close>

fun fadd :: "float32 \<Rightarrow> float32 \<Rightarrow> float32" where
  "fadd (Num x) (Num y) = fl32 (x + y)"
| "fadd (Num x) b = b"
| "fadd a (Num y) = a"
| "fadd PlusInf PlusInf = PlusInf"
| "fadd MinusInf MinusInf = MinusInf"
| "fadd a b = NaN"

fun fmul :: "float32 \<Rightarrow> float32 \<Rightarrow> float32" where
  "fmul (Num x) (Num y) = fl32 (x * y)"
| "fmul NaN b = NaN"
| "fmul a NaN = NaN"
| "fmul (Num x) b = (if x = 0 then NaN else if (0 < x) = (b = PlusInf) then PlusInf else MinusInf)"
| "fmul a (Num y) = (if y = 0 then NaN else if (0 < y) = (a = PlusInf) then PlusInf else MinusInf)"
| "fmul a b = (if a = b then PlusInf else MinusInf)"

fun fneg :: "float32 \<Rightarrow> float32" where
  "fneg (Num x) = Num (- x)"
| "fneg PlusInf = MinusInf"
| "fneg MinusInf = PlusInf"
| "fneg NaN = NaN"

definition fsub :: "float32 \<Rightarrow> float32 \<Rightarrow> float32" where
  "fsub a b = fadd a (fneg b)"

text \<open>
  The displacement \<open>T[j] * x + T[j + 1] * y + T[j + 2] * z + T[j + 3] - q\<close> of one
  coordinate, evaluated from the left as C does.
\<close>

definition tfm_disp32 ::
  "(nat \<Rightarrow> float32) \<Rightarrow> float32 \<Rightarrow> float32 \<Rightarrow> float32 \<Rightarrow> nat \<Rightarrow> float32 \<Rightarrow> float32" where
  "tfm_disp32 T x y z j q =
     fsub (fadd (fadd (fadd (fmul (T j) x) (fmul (T (j + 1)) y)) (fmul (T (j + 2)) z))
             (T (j + 3))) q"

text \<open>
  One round of the loop over the transforms of \<open>computeTransformedPoints\<close>, on \<open>float\<close>
  values: \<open>xt += w_k * (T[0] * x + T[1] * y + T[2] * z + T[3] - x)\<close> and the same for
  \<open>yt\<close> and \<open>zt\<close>.
\<close>

definition fwd_step32 ::
  "kparams \<Rightarrow> (nat \<Rightarrow> float32) \<Rightarrow> (nat \<Rightarrow> float32) \<Rightarrow> nat \<Rightarrow> nat
     \<Rightarrow> float32 \<times> float32 \<times> float32 \<Rightarrow> nat \<Rightarrow> float32 \<times> float32 \<times> float32
     \<Rightarrow> float32 \<times> float32 \<times> float32" where
  "fwd_step32 P masks constTfms b valm p k acc =
     (case p of (x, y, z) \<Rightarrow>
      case acc of (xt, yt, zt) \<Rightarrow>
        let w_k = masks (k * ms1 P + valm);
            T = (\<lambda>j. constTfms (b * ts0 P + k * ts1 P + j))
        in (fadd xt (fmul w_k (tfm_disp32 T x y z 0 x)),
            fadd yt (fmul w_k (tfm_disp32 T x y z 4 y)),
            fadd zt (fmul w_k (tfm_disp32 T x y z 8 z))))"

text \<open>\<open>computeTransformedPoints\<close> for one thread, on \<open>float\<close> values.\<close>

definition computeTransformedPoints32 ::
  "kparams \<Rightarrow> nat \<Rightarrow> (nat \<Rightarrow> float32) \<Rightarrow> (nat \<Rightarrow> float32) \<Rightarrow> (nat \<Rightarrow> float32)
     \<Rightarrow> nat \<Rightarrow> nat \<Rightarrow> nat \<Rightarrow> (nat \<Rightarrow> float32) \<Rightarrow> nat \<Rightarrow> float32" where
  "computeTransformedPoints32 P npoints points masks constTfms blockIdx blockDim threadIdx
       tfmpoints =
     (let tid = blockIdx * blockDim + threadIdx
      in if tid \<ge> npoints then tfmpoints
         else
           case getCoordinates tid (nrows P) (ncols P) of (b, r, c) \<Rightarrow>
             let valp = b * ps0 P + r * ps2 P + c * ps3 P;
                 x = points (0 * ps1 P + valp);
                 y = points (1 * ps1 P + valp);
                 z = points (2 * ps1 P + valp);
                 valm = b * ms0 P + r * ms2 P + c * ms3 P
             in case fold (fwd_step32 P masks constTfms b valm (x, y, z)) [0..<nSE3 P] (x, y, z)
                of (xt, yt, zt) \<Rightarrow>
                  tfmpoints(0 * ps1 P + valp := xt, 1 * ps1 P + valp := yt,
                            2 * ps1 P + valp := zt))"

text \<open>
  \<open>NTfm3D_ForwardLauncher\<close> on \<open>float\<close> values: the staging of the transforms and the
  grid of \<open>ceil(npoints / 256)\<close> blocks of 256 threads.
\<close>

definition NTfm3D_ForwardLauncher32 ::
  "(nat \<Rightarrow> float32) \<Rightarrow> (nat \<Rightarrow> float32) \<Rightarrow> (nat \<Rightarrow> float32) \<Rightarrow> (nat \<Rightarrow> float32)
     \<Rightarrow> nat \<Rightarrow> nat \<Rightarrow> nat \<Rightarrow> nat \<Rightarrow> nat \<Rightarrow> nat \<Rightarrow> nat list \<Rightarrow> nat list \<Rightarrow> nat list
     \<Rightarrow> (nat \<Rightarrow> float32) \<Rightarrow> nat \<Rightarrow> float32" where
  "NTfm3D_ForwardLauncher32 points masks tfms tfmpoints batchSize ndim nr nc nse3 nTfmParams
       ps ms ts constTfms0 =
     (let constTfms = (\<lambda>i. if i < nTfmParams then tfms i else constTfms0 i);
          npoints = batchSize * nr * nc;
          numBlocks = nat \<lceil>real npoints * (1 / 256)\<rceil>;
          P = kparams_of nr nc nse3 ps ms ts
      in fold (\<lambda>blockIdx.
                 fold (computeTransformedPoints32 P npoints points masks constTfms blockIdx 256)
                   [0..<256])
           [0..<numBlocks] tfmpoints)"

text \<open>A buffer of finite \<open>float\<close> values from a list, zero beyond it.\<close>

definition buf32_of :: "real list \<Rightarrow> nat \<Rightarrow> float32" where
  "buf32_of xs = (\<lambda>a. if a < length xs then Num (xs ! a) else Num 0)"

text \<open>Element \<open>[b, i, r, c]\<close> of a row-major tensor of \<open>float\<close> values.\<close>

definition at4_32 ::
  "(nat \<Rightarrow> float32) \<Rightarrow> nat \<Rightarrow> nat \<Rightarrow> nat \<Rightarrow> nat \<Rightarrow> nat \<Rightarrow> nat \<Rightarrow> nat \<Rightarrow> float32" where
  "at4_32 m N1 N2 N3 b i r c = m (b * (N1 * N2 * N3) + i * (N2 * N3) + r * N3 + c)"

text \<open>The twelve entries of transform \<open>k\<close> of batch \<open>b\<close>.\<close>

definition tfm_32 :: "(nat \<Rightarrow> float32) \<Rightarrow> nat \<Rightarrow> nat \<Rightarrow> nat \<Rightarrow> nat \<Rightarrow> float32" where
  "tfm_32 m K b k j = m (b * (K * 12) + k * 12 + j)"

text \<open>
  A buffer whose first entry is \<open>2\<^sup>1\<^sup>0\<^sup>0\<close> and whose other entries are zero: as a point
  field the point \<open>(2\<^sup>1\<^sup>0\<^sup>0, 0, 0)\<close>, as a transform set a transform with \<open>T[0] = 2\<^sup>1\<^sup>0\<^sup>0\<close>.
\<close>

definition ex_large :: "nat \<Rightarrow> float32" where
  "ex_large = (\<lambda>a. if a = 0 then Num (2 ^ 100) else Num 0)"


section \<open>Properties of the host entry points\<close>

lemma int_of_long_small: "n < 2 ^ 31 \<Longrightarrow> int_of_long n = int n"
  unfolding int_of_long_def
  by (simp add: signed_of_nat signed_take_bit_int_eq_self)

text \<open>
  While the element count of the transform tensor fits a C \<open>int\<close>, all four entry
  points reject with \<open>CapacityExceeded\<close> exactly when it exceeds 15000.
\<close>

lemma capacity_check_in_int_range:
  assumes "tsize points ! 1 = 3" and "THCudaTensor_nElement tfms < 2 ^ 31"
  shows "(NTfm3DDelta_forward_cuda L1 points masks tfms tfmpoints = Inl CapacityExceeded)
           = (15000 < THCudaTensor_nElement tfms)"
    and "(NTfm3DDelta_backward_cuda L2 points masks tfms tfmpoints gradPoints gradMasks gradTfms
            gradTfmpoints = Inl CapacityExceeded) = (15000 < THCudaTensor_nElement tfms)"
    and "(Weighted3DTransformLoss_forward_cuda L3 points masks tfms targetpoints sizeAverage
            = Inl CapacityExceeded) = (15000 < THCudaTensor_nElement tfms)"
    and "(Weighted3DTransformLoss_backward_cuda L4 points masks tfms targetpoints gradPoints
            gradMasks gradTfms gradOutput sizeAverage = Inl CapacityExceeded)
           = (15000 < THCudaTensor_nElement tfms)"
proof -
  have n: "int_of_long (THCudaTensor_nElement tfms) = int (THCudaTensor_nElement tfms)"
    using assms(2) by (rule int_of_long_small)
  have d: "int_of_long 3 = 3" by (simp add: int_of_long_def)
  show "(NTfm3DDelta_forward_cuda L1 points masks tfms tfmpoints = Inl CapacityExceeded)
           = (15000 < THCudaTensor_nElement tfms)"
    using assms(1) by (simp add: NTfm3DDelta_forward_cuda_def Let_def n d)
  show "(NTfm3DDelta_backward_cuda L2 points masks tfms tfmpoints gradPoints gradMasks gradTfms
            gradTfmpoints = Inl CapacityExceeded) = (15000 < THCudaTensor_nElement tfms)"
    using assms(1)
    by (simp add: NTfm3DDelta_backward_cuda_def NTfm3DDelta_backward_args_def Let_def n d
        split: prod.splits)
  show "(Weighted3DTransformLoss_forward_cuda L3 points masks tfms targetpoints sizeAverage
            = Inl CapacityExceeded) = (15000 < THCudaTensor_nElement tfms)"
    using assms(1)
    by (simp add: Weighted3DTransformLoss_forward_cuda_def
        Weighted3DTransformLoss_forward_loss_def Let_def n d)
  show "(Weighted3DTransformLoss_backward_cuda L4 points masks tfms targetpoints gradPoints
            gradMasks gradTfms gradOutput sizeAverage = Inl CapacityExceeded)
           = (15000 < THCudaTensor_nElement tfms)"
    using assms(1)
    by (simp add: Weighted3DTransformLoss_backward_cuda_def Let_def n d split: prod.splits)
qed

text \<open>
  Claim C6 (capacity boundary). The entry points store the 64-bit element count in a C
  \<open>int\<close> before comparing it with 15000. A transform tensor of shape
  \<open>357913942 \<times> 1 \<times> 12\<close> has \<open>B * K * 12 = 4294967304\<close> scalars, far above 15001; the
  truncated count is 8, so neither forward entry point rejects the call with
  \<open>CapacityExceeded\<close>.
\<close>

theorem capacity_check_bypassed_by_truncation:
  "THCudaTensor_nElement (tfms_of_batch 357913942) = 357913942 * 1 * 12
   \<and> 15001 \<le> THCudaTensor_nElement (tfms_of_batch 357913942)
   \<and> int_of_long (THCudaTensor_nElement (tfms_of_batch 357913942)) = 8
   \<and> NTfm3DDelta_forward_cuda L1 (points_of_batch 357913942) (masks_of_batch 357913942)
        (tfms_of_batch 357913942) tfmpoints \<noteq> Inl CapacityExceeded
   \<and> Weighted3DTransformLoss_forward_cuda L3 (points_of_batch 357913942)
        (masks_of_batch 357913942) (tfms_of_batch 357913942) targetpoints sizeAverage
        \<noteq> Inl CapacityExceeded"
  by (simp add: NTfm3DDelta_forward_cuda_def Weighted3DTransformLoss_forward_cuda_def
      Weighted3DTransformLoss_forward_loss_def Let_def THCudaTensor_nElement_def
      tfms_of_batch_def points_of_batch_def int_of_long_def)

text \<open>
  Claim C8 (zero-initialised gradient buffers), as the code has it: when the backward
  entry point reaches its launch, every element of the point gradient and of the
  transform gradient is zero, and the mask gradient is handed over as the caller left it.
\<close>

theorem backward_fills_points_and_tfms:
  assumes "NTfm3DDelta_backward_args points masks tfms tfmpoints gradPoints gradMasks gradTfms
             gradTfmpoints = Inr a"
  shows "(\<forall>off \<in> set (elem_offsets gradPoints). la_gradPoints a off = 0)
         \<and> (\<forall>off \<in> set (elem_offsets gradTfms). la_gradTfms a off = 0)
         \<and> la_gradMasks a = tdata gradMasks"
  using assms
  by (auto simp: NTfm3DDelta_backward_args_def Let_def THCudaTensor_fill_def
      split: if_splits)

lemma ex_backward_args:
  "\<exists>a. NTfm3DDelta_backward_args ex_points ex_masks ex_tfms ex_gradOut ex_stalePoints
         ex_staleMasks ex_staleTfms ex_gradOut = Inr a"
  by (simp add: NTfm3DDelta_backward_args_def Let_def ex_points_def ex_tfms_def
      THCudaTensor_nElement_def int_of_long_def)

lemma ex_stale_offsets:
  "elem_offsets ex_stalePoints = [0, 1, 2]"
  "elem_offsets ex_staleTfms = [0, 1, 2, 3, 4, 5, 6, 7, 8, 9, 10, 11]"
  by (simp_all add: elem_offsets_def ex_stalePoints_def ex_staleTfms_def offset_def
      upt_conv_Cons)

theorem backward_fills_points_and_tfms_witness:
  "\<exists>a. NTfm3DDelta_backward_args ex_points ex_masks ex_tfms ex_gradOut ex_stalePoints
         ex_staleMasks ex_staleTfms ex_gradOut = Inr a
       \<and> la_gradPoints a 0 = 0 \<and> la_gradPoints a 2 = 0 \<and> la_gradTfms a 11 = 0
       \<and> la_gradMasks a 0 = 7"
proof -
  obtain a where a: "NTfm3DDelta_backward_args ex_points ex_masks ex_tfms ex_gradOut
         ex_stalePoints ex_staleMasks ex_staleTfms ex_gradOut = Inr a"
    using ex_backward_args by blast
  from backward_fills_points_and_tfms [OF a]
  have "la_gradPoints a 0 = 0 \<and> la_gradPoints a 2 = 0 \<and> la_gradTfms a 11 = 0
        \<and> la_gradMasks a = tdata ex_staleMasks"
    by (simp add: ex_stale_offsets)
  then show ?thesis
    using a by (simp add: ex_staleMasks_def)
qed

text \<open>
  The mask gradient is not zero-initialised: a stale 7 in its storage is still there at
  the launch.
\<close>

theorem backward_leaves_mask_gradient_stale:
  "\<exists>a. NTfm3DDelta_backward_args ex_points ex_masks ex_tfms ex_gradOut ex_stalePoints
         ex_staleMasks ex_staleTfms ex_gradOut = Inr a
       \<and> 0 \<in> set (elem_offsets ex_staleMasks) \<and> la_gradMasks a 0 = 7"
  by (simp add: NTfm3DDelta_backward_args_def Let_def ex_points_def ex_tfms_def
      THCudaTensor_nElement_def int_of_long_def ex_staleMasks_def elem_offsets_def offset_def)

text \<open>
  Claim C9 (scaling of the fused loss), as the code has it: the loss value the forward
  call computes is the kernel's squared-error sum times 0.5 and, when \<open>sizeAverage\<close> is
  set, divided by the number of scalar elements \<open>B * 3 * R * C\<close> of the point tensor,
  which is three times the number of points.
\<close>

theorem loss_forward_scaling:
  assumes "tsize points = [B, 3, R, C]"
    and "int_of_long (THCudaTensor_nElement tfms) \<le> 15000"
  shows "Weighted3DTransformLoss_forward_loss L points masks tfms targetpoints sizeAverage
          = Inr (if sizeAverage = 0
                 then L (Weighted3DTransformLoss_forward_args points masks tfms targetpoints) * 0.5
                 else L (Weighted3DTransformLoss_forward_args points masks tfms targetpoints) * 0.5
                        / real (B * 3 * R * C))"
proof -
  have "int_of_long 3 = 3" by (simp add: int_of_long_def)
  moreover have "THCudaTensor_nElement (THCudaTensor_newContiguous points) = B * 3 * R * C"
    using assms(1) by (simp add: THCudaTensor_nElement_def THCudaTensor_newContiguous_def)
  ultimately show ?thesis
    using assms
    by (simp add: Weighted3DTransformLoss_forward_loss_def Let_def)
qed

lemma ex_tfms_count: "int_of_long (THCudaTensor_nElement ex_tfms) = 12"
  by (simp add: THCudaTensor_nElement_def ex_tfms_def int_of_long_def)

lemma ex_points_size: "tsize ex_points = [1, 3, 1, 1]"
  by (simp add: ex_points_def)

theorem loss_forward_scaling_witness:
  "Weighted3DTransformLoss_forward_loss (\<lambda>a. 12) ex_points ex_masks ex_tfms ex_points 1 = Inr 2
   \<and> Weighted3DTransformLoss_forward_loss (\<lambda>a. 12) ex_points ex_masks ex_tfms ex_points 0 = Inr 6"
  using loss_forward_scaling [OF ex_points_size, of ex_tfms "\<lambda>a. 12" ex_masks ex_points 1]
    loss_forward_scaling [OF ex_points_size, of ex_tfms "\<lambda>a. 12" ex_masks ex_points 0]
  by (simp add: ex_tfms_count)

text \<open>
  With one point (three scalars) and a kernel sum of 12, averaging returns 2, not the
  \<open>12 * 0.5 / 1 = 6\<close> that a division by the point count would give.
\<close>

theorem loss_forward_divides_by_element_count:
  "Weighted3DTransformLoss_forward_cuda (\<lambda>a. 12) ex_points ex_masks ex_tfms ex_points 1 = Inr 2
   \<and> tsize ex_points = [1, 3, 1, 1]
   \<and> real_of_int 2 \<noteq> 12 * 0.5 / real (1 * 1 * 1)"
  by (simp add: Weighted3DTransformLoss_forward_cuda_def
      Weighted3DTransformLoss_forward_loss_def Let_def ex_points_def ex_tfms_def
      THCudaTensor_nElement_def THCudaTensor_newContiguous_def int_of_long_def float_to_int_def)

text \<open>
  The conversion at \<open>return\<close>: a loss of 0.5 leaves the function as the integer 0.
\<close>

lemma loss_forward_return_truncates:
  "Weighted3DTransformLoss_forward_loss (\<lambda>a. 1) ex_points ex_masks ex_tfms ex_points 0 = Inr 0.5
   \<and> Weighted3DTransformLoss_forward_cuda (\<lambda>a. 1) ex_points ex_masks ex_tfms ex_points 0 = Inr 0"
  by (simp add: Weighted3DTransformLoss_forward_cuda_def
      Weighted3DTransformLoss_forward_loss_def Let_def ex_points_def ex_tfms_def
      THCudaTensor_nElement_def THCudaTensor_newContiguous_def int_of_long_def float_to_int_def)

section \<open>Threads run one after the other\<close>

text \<open>
  A projection of the state that every thread of a list leaves alone is unchanged by
  the list; one that a single thread sets, and the others leave alone, holds what that
  thread wrote.
\<close>

lemma fold_frame:
  "(\<And>x s. x \<in> set xs \<Longrightarrow> pr (f x s) = pr s) \<Longrightarrow> pr (fold f xs s) = pr s"
  by (induction xs arbitrary: s) simp_all

lemma fold_hit:
  assumes "x \<in> set xs"
    and "\<And>s. pr (f x s) = v"
    and "\<And>y s. y \<in> set xs \<Longrightarrow> y \<noteq> x \<Longrightarrow> pr (f y s) = pr s"
  shows "pr (fold f xs s) = v"
  using assms
proof (induction xs arbitrary: s)
  case Nil
  then show ?case by simp
next
  case (Cons a xs)
  show ?case
  proof (cases "x \<in> set xs")
    case True
    then show ?thesis using Cons by simp
  next
    case False
    then have ax: "a = x" using Cons.prems(1) by simp
    have "pr (fold f xs (f a s)) = pr (f a s)"
    proof (rule fold_frame)
      fix y s' assume "y \<in> set xs"
      then show "pr (f y s') = pr s'" using Cons.prems(3) False by auto
    qed
    then show ?thesis using ax Cons.prems(2) by simp
  qed
qed

lemma fold_blocks_threads:
  "fold (\<lambda>blk. fold (\<lambda>thr. f (blk * n + thr)) [0..<n]) [0..<m] s = fold f [0..<m * n] s"
proof (induction m arbitrary: s)
  case 0
  then show ?case by simp
next
  case (Suc m)
  have 1: "fold (\<lambda>thr. f (m * n + thr)) [0..<n] t = fold f [m * n..<m * n + n] t" for t
  proof -
    have "[m * n..<m * n + n] = map (\<lambda>thr. m * n + thr) [0..<n]"
      by (simp add: map_add_upt add.commute)
    then show ?thesis by (simp add: fold_map comp_def)
  qed
  have 2: "[0..<Suc m * n] = [0..<m * n] @ [m * n..<m * n + n]"
    using upt_add_eq_append [of 0 "m * n" n] by (simp add: add.commute)
  show ?case
    unfolding 2 by (simp add: Suc 1)
qed

section \<open>Row-major addressing\<close>

lemma radix_inj:
  fixes a b :: nat
  assumes "a * n + b = a' * n + b'" "b < n" "b' < n"
  shows "a = a' \<and> b = b'"
proof -
  have "(a * n + b) div n = a" "(a' * n + b') div n = a'"
    using assms(2,3) by simp_all
  moreover have "(a * n + b) div n = (a' * n + b') div n"
    using assms(1) by simp
  ultimately have "a = a'" by simp
  then show ?thesis using assms(1) by simp
qed

lemma addr4_inj:
  fixes b i r c b' i' r' c' :: nat
  assumes "b * (N1 * N2 * N3) + i * (N2 * N3) + r * N3 + c
           = b' * (N1 * N2 * N3) + i' * (N2 * N3) + r' * N3 + c'"
    and "i < N1" "i' < N1" "r < N2" "r' < N2" "c < N3" "c' < N3"
  shows "b = b' \<and> i = i' \<and> r = r' \<and> c = c'"
proof -
  have e: "((b * N1 + i) * N2 + r) * N3 + c = ((b' * N1 + i') * N2 + r') * N3 + c'"
    using assms(1) by (simp add: algebra_simps)
  from radix_inj [OF e assms(6,7)]
  have 1: "(b * N1 + i) * N2 + r = (b' * N1 + i') * N2 + r'" and c: "c = c'" by simp_all
  from radix_inj [OF 1 assms(4,5)] have 2: "b * N1 + i = b' * N1 + i'" and r: "r = r'"
    by simp_all
  from radix_inj [OF 2 assms(2,3)] show ?thesis using c r by simp
qed

lemma cell_index_split:
  fixes b r c :: nat
  shows "b * (R * C) + r * C + c = (b * R + r) * C + c"
  by (simp add: algebra_simps)

lemma getCoordinates_cell:
  assumes "r < R" "c < C"
  shows "getCoordinates (b * (R * C) + r * C + c) R C = (b, r, c)"
proof -
  have 2: "(b * (R * C) + r * C + c) div C = b * R + r"
    unfolding cell_index_split using assms by simp
  have 3: "(b * (R * C) + r * C + c) mod C = c"
    unfolding cell_index_split using assms by simp
  have "(b * (R * C) + r * C + c) div (R * C) = ((b * (R * C) + r * C + c) div C) div R"
    by (simp add: div_mult2_eq mult.commute)
  also have "\<dots> = b" unfolding 2 using assms by simp
  finally have 1: "(b * (R * C) + r * C + c) div (R * C) = b" .
  show ?thesis
    unfolding getCoordinates_def 1 2 3 using assms by simp
qed

lemma getCoordinates_inverse:
  assumes "getCoordinates t R C = (b, r, c)" "t < B * R * C"
  shows "t = b * (R * C) + r * C + c \<and> b < B \<and> r < R \<and> c < C"
proof -
  have C: "0 < C" using assms(2) by (cases C) simp_all
  have R: "0 < R" using assms(2) by (cases R) simp_all
  have b: "b = t div (R * C)" and r: "r = (t div C) mod R" and c: "c = t mod C"
    using assms(1) by (simp_all add: getCoordinates_def)
  have d: "t div (R * C) = (t div C) div R" by (simp add: div_mult2_eq mult.commute)
  have "(b * R + r) * C + c = ((t div C) div R * R + (t div C) mod R) * C + t mod C"
    unfolding b r c d ..
  also have "\<dots> = t" by simp
  finally have t: "t = b * (R * C) + r * C + c" unfolding cell_index_split by simp
  have "b < B" unfolding b using assms(2)
    by (simp add: less_mult_imp_div_less mult.assoc)
  then show ?thesis using t r c R C by simp
qed


section \<open>The forward kernel computes the blend\<close>

lemma fwd_fold:
  "fold (fwd_step P masks cT b valm (x, y, z)) [0..<K] (x, y, z) =
     (blend (\<lambda>j. [x, y, z] ! j) (\<lambda>k. masks (k * ms1 P + valm))
        (\<lambda>k j. cT (b * ts0 P + k * ts1 P + j)) K 0,
      blend (\<lambda>j. [x, y, z] ! j) (\<lambda>k. masks (k * ms1 P + valm))
        (\<lambda>k j. cT (b * ts0 P + k * ts1 P + j)) K 1,
      blend (\<lambda>j. [x, y, z] ! j) (\<lambda>k. masks (k * ms1 P + valm))
        (\<lambda>k j. cT (b * ts0 P + k * ts1 P + j)) K 2)"
proof (induction K)
  case 0
  then show ?case by (simp add: blend_def)
next
  case (Suc K)
  then show ?case
    by (simp add: blend_def fwd_step_def Let_def)
qed

lemma blocks_cover: "n \<le> nat \<lceil>real n * (1 / d)\<rceil> * d" if "0 < d" for n d :: nat
proof -
  define x where "x = real n * (1 / real d)"
  have "x \<le> of_int \<lceil>x\<rceil>"
    by (rule le_of_int_ceiling)
  then have "x * real d \<le> of_int \<lceil>x\<rceil> * real d"
    by (rule mult_right_mono) simp
  moreover have "x * real d = real n"
    using that by (simp add: x_def)
  moreover have "0 \<le> x" by (simp add: x_def)
  then have "0 \<le> \<lceil>x\<rceil>" by linarith
  then have "real_of_int \<lceil>x\<rceil> = real (nat \<lceil>x\<rceil>)" by simp
  ultimately have "real n \<le> real (nat \<lceil>x\<rceil> * d)"
    by simp
  then show ?thesis unfolding x_def by linarith
qed

lemma valid_kparams:
  assumes "valid_input B K R C ps ms ts n"
  shows "ps0 (kparams_of R C K ps ms ts) = 3 * R * C"
    "ps1 (kparams_of R C K ps ms ts) = R * C"
    "ps2 (kparams_of R C K ps ms ts) = C"
    "ps3 (kparams_of R C K ps ms ts) = 1"
    "ms0 (kparams_of R C K ps ms ts) = K * R * C"
    "ms1 (kparams_of R C K ps ms ts) = R * C"
    "ms2 (kparams_of R C K ps ms ts) = C"
    "ms3 (kparams_of R C K ps ms ts) = 1"
    "ts0 (kparams_of R C K ps ms ts) = K * 12"
    "ts1 (kparams_of R C K ps ms ts) = 12"
    "nrows (kparams_of R C K ps ms ts) = R"
    "ncols (kparams_of R C K ps ms ts) = C"
    "nSE3 (kparams_of R C K ps ms ts) = K"
proof -
  have "take 2 ts = [K * 12, 12]" using assms by (simp add: valid_input_def)
  then have "ts ! 0 = K * 12 \<and> ts ! 1 = 12"
    by (metis nth_take nth_Cons_0 nth_Cons_Suc One_nat_def zero_less_numeral one_less_numeral_iff semiring_norm(76))
  then show "ts0 (kparams_of R C K ps ms ts) = K * 12" "ts1 (kparams_of R C K ps ms ts) = 12"
    by (simp_all add: kparams_of_def)
qed (use assms in \<open>simp_all add: valid_input_def kparams_of_def\<close>)


lemma staged_tfm:
  assumes "b < B" "k < K" "j < 12"
  shows "cudaMemcpyToSymbol cT0 tfms (B * K * 12) (b * (K * 12) + k * 12 + j)
         = tfm_at tfms K b k j"
proof -
  have "k * 12 + j < K * 12" using assms(2,3) by simp
  then have "b * (K * 12) + k * 12 + j < (b + 1) * (K * 12)" by simp
  also have "\<dots> \<le> B * (K * 12)" using assms(1) by (intro mult_le_mono1) simp
  finally show ?thesis by (simp add: cudaMemcpyToSymbol_def tfm_at_def mult.assoc)
qed

text \<open>What the thread of a cell writes, and where.\<close>

lemma forward_thread:
  fixes points masks tfms cT0 :: buf
  assumes v: "valid_input B K R C ps ms ts n" and "b < B" "r < R" "c < C"
  defines "P \<equiv> kparams_of R C K ps ms ts"
  defines "cT \<equiv> cudaMemcpyToSymbol cT0 tfms n"
  defines "val \<equiv> \<lambda>i. blend (\<lambda>j. at4 points 3 R C b j r c) (\<lambda>k. at4 masks K R C b k r c)
                         (\<lambda>k j. tfm_at tfms K b k j) K i"
  shows "computeTransformedPoints P (B * R * C) points masks cT 0 0 (b * (R * C) + r * C + c) m
         = m(b * (3 * R * C) + r * C + c := val 0,
             R * C + (b * (3 * R * C) + r * C + c) := val 1,
             2 * (R * C) + (b * (3 * R * C) + r * C + c) := val 2)"
proof -
  have n: "n = B * K * 12" using v by (simp add: valid_input_def)
  have lt: "b * (R * C) + r * C + c < B * R * C"
  proof -
    have "r * C + c < (r + 1) * C" using assms by simp
    also have "\<dots> \<le> R * C" using assms by (intro mult_le_mono1) simp
    finally have "b * (R * C) + r * C + c < (b + 1) * (R * C)" by simp
    also have "\<dots> \<le> B * (R * C)" using assms by (intro mult_le_mono1) simp
    finally show ?thesis by (simp add: mult.assoc)
  qed
  have T: "(\<lambda>k. cT (b * (K * 12) + k * 12 + j)) k = tfm_at tfms K b k j" if "k < K" "j < 12" for k j
    unfolding cT_def n using staged_tfm [OF \<open>b < B\<close> that] by simp
  have bl: "blend (\<lambda>j. [at4 points 3 R C b 0 r c, at4 points 3 R C b 1 r c,
                         at4 points 3 R C b 2 r c] ! j)
              (\<lambda>k. masks (k * (R * C) + (b * (K * R * C) + r * C + c)))
              (\<lambda>k j. cT (b * (K * 12) + k * 12 + j)) K i = val i" if "i < 3" for i
    unfolding val_def blend_def
  proof -
    have i0: "[at4 points 3 R C b 0 r c, at4 points 3 R C b 1 r c, at4 points 3 R C b 2 r c] ! i
              = at4 points 3 R C b i r c"
    proof -
      have "i = 0 \<or> i = 1 \<or> i = 2" using that by arith
      then show ?thesis by auto
    qed
    have m: "masks (k * (R * C) + (b * (K * R * C) + r * C + c)) = at4 masks K R C b k r c" for k
      by (simp add: at4_def algebra_simps)
    have tt: "cT (b * (K * 12) + k * 12 + (4 * i + d)) = tfm_at tfms K b k (4 * i + d)"
      if "k < K" "d < 4" for k d
      using T [of k "4 * i + d"] that \<open>i < 3\<close> by simp
    show "[at4 points 3 R C b 0 r c, at4 points 3 R C b 1 r c, at4 points 3 R C b 2 r c] ! i +
      (\<Sum>k<K. masks (k * (R * C) + (b * (K * R * C) + r * C + c)) *
         (cT (b * (K * 12) + k * 12 + 4 * i) *
            [at4 points 3 R C b 0 r c, at4 points 3 R C b 1 r c, at4 points 3 R C b 2 r c] ! 0 +
          cT (b * (K * 12) + k * 12 + (4 * i + 1)) *
            [at4 points 3 R C b 0 r c, at4 points 3 R C b 1 r c, at4 points 3 R C b 2 r c] ! 1 +
          cT (b * (K * 12) + k * 12 + (4 * i + 2)) *
            [at4 points 3 R C b 0 r c, at4 points 3 R C b 1 r c, at4 points 3 R C b 2 r c] ! 2 +
          cT (b * (K * 12) + k * 12 + (4 * i + 3)) -
          [at4 points 3 R C b 0 r c, at4 points 3 R C b 1 r c, at4 points 3 R C b 2 r c] ! i))
      = at4 points 3 R C b i r c +
      (\<Sum>k<K. at4 masks K R C b k r c *
         (tfm_at tfms K b k (4 * i) * at4 points 3 R C b 0 r c +
          tfm_at tfms K b k (4 * i + 1) * at4 points 3 R C b 1 r c +
          tfm_at tfms K b k (4 * i + 2) * at4 points 3 R C b 2 r c +
          tfm_at tfms K b k (4 * i + 3) - at4 points 3 R C b i r c))"
      unfolding i0 m
      using tt [of _ 0] tt [of _ 1] tt [of _ 2] tt [of _ 3]
      by (intro arg_cong2 [where f = "(+)"] sum.cong refl) simp
  qed
  have pts: "points (b * (3 * R * C) + r * C + c) = at4 points 3 R C b 0 r c"
    "points (R * C + (b * (3 * R * C) + r * C + c)) = at4 points 3 R C b 1 r c"
    "points (2 * (R * C) + (b * (3 * R * C) + r * C + c)) = at4 points 3 R C b 2 r c"
    by (simp_all add: at4_def algebra_simps)
  show ?thesis
    using lt bl [of 0] bl [of 1] bl [of 2]
    by (simp add: computeTransformedPoints_def P_def valid_kparams [OF v]
        getCoordinates_cell [OF \<open>r < R\<close> \<open>c < C\<close>] Let_def fwd_fold pts)
qed


lemma cell_lt:
  fixes b r c :: nat
  assumes "b < B" "r < R" "c < C"
  shows "b * (R * C) + r * C + c < B * R * C"
proof -
  have "r * C + c < (r + 1) * C" using assms by simp
  also have "\<dots> \<le> R * C" using assms by (intro mult_le_mono1) simp
  finally have "b * (R * C) + r * C + c < (b + 1) * (R * C)" by simp
  also have "\<dots> \<le> B * (R * C)" using assms by (intro mult_le_mono1) simp
  finally show ?thesis by (simp add: mult.assoc)
qed

lemma forward_launch_cell:
  fixes points masks tfms cT0 tfmpoints :: buf
  assumes v: "valid_input B K R C ps ms ts n" and b: "b < B" and r: "r < R" and c: "c < C"
    and i: "i < 3"
  shows "at4 (NTfm3D_ForwardLauncher points masks tfms tfmpoints B 3 R C K n ps ms ts cT0)
             3 R C b i r c
         = blend (\<lambda>j. at4 points 3 R C b j r c) (\<lambda>k. at4 masks K R C b k r c)
             (\<lambda>k j. tfm_at tfms K b k j) K i"
proof -
  define P where "P = kparams_of R C K ps ms ts"
  define cT where "cT = cudaMemcpyToSymbol cT0 tfms n"
  define np where "np = B * R * C"
  define nb where "nb = nat \<lceil>real np * (1 / 256)\<rceil>"
  define f where "f = computeTransformedPoints P np points masks cT 0 0"
  define loc where "loc = b * (3 * R * C) + i * (R * C) + r * C + c"
  define t0 where "t0 = b * (R * C) + r * C + c"
  define val where "val = (\<lambda>b r c i. blend (\<lambda>j. at4 points 3 R C b j r c)
      (\<lambda>k. at4 masks K R C b k r c) (\<lambda>k j. tfm_at tfms K b k j) K i)"
  have thr: "computeTransformedPoints P np points masks cT blk 256 t = f (blk * 256 + t)"
    for blk t
    by (rule ext) (simp add: f_def computeTransformedPoints_def)
  have launch: "NTfm3D_ForwardLauncher points masks tfms tfmpoints B 3 R C K n ps ms ts cT0
                = fold f [0..<nb * 256] tfmpoints"
    unfolding NTfm3D_ForwardLauncher_def Let_def P_def [symmetric] cT_def [symmetric]
      np_def [symmetric] nb_def [symmetric] thr
    by (rule fold_blocks_threads)
  define A where "A = (\<lambda>b i r c. b * (3 * R * C) + i * (R * C) + r * C + c)"
  have cell: "f (b' * (R * C) + r' * C + c') m
         = m(A b' 0 r' c' := val b' r' c' 0, A b' 1 r' c' := val b' r' c' 1,
             A b' 2 r' c' := val b' r' c' 2)"
    if "b' < B" "r' < R" "c' < C" for b' r' c' m
  proof -
    have "A b' 0 r' c' = b' * (3 * R * C) + r' * C + c'"
      "A b' 1 r' c' = R * C + (b' * (3 * R * C) + r' * C + c')"
      "A b' 2 r' c' = 2 * (R * C) + (b' * (3 * R * C) + r' * C + c')"
      by (simp_all add: A_def)
    then show ?thesis
      unfolding f_def P_def cT_def np_def val_def
      using forward_thread [OF v that, where m = m and points = points and masks = masks
          and tfms = tfms and ?cT0.0 = cT0]
      by simp
  qed
  have A_inj: "(A b1 i1 r1 c1 = A b2 i2 r2 c2) = (b1 = b2 \<and> i1 = i2 \<and> r1 = r2 \<and> c1 = c2)"
    if "i1 < 3" "i2 < 3" "r1 < R" "r2 < R" "c1 < C" "c2 < C" for b1 i1 r1 c1 b2 i2 r2 c2
    unfolding A_def using addr4_inj [of b1 3 R C i1 r1 c1 b2 i2 r2 c2] that by auto
  have i_cases: "i = 0 \<or> i = 1 \<or> i = 2" using i by arith
  have t0_lt: "t0 < np" unfolding t0_def np_def using b r c by (rule cell_lt)
  have "np \<le> nb * 256" unfolding nb_def using blocks_cover [of 256 np] by simp
  then have t0_in: "t0 \<in> set [0..<nb * 256]" using t0_lt by simp
  have hit: "f t0 s (A b i r c) = val b r c i" for s
    unfolding t0_def cell [OF b r c]
    using i_cases r c by (auto simp: A_inj)
  have miss: "f y s (A b i r c) = s (A b i r c)" if "y \<noteq> t0" for y s
  proof (cases "y < np")
    case False
    then show ?thesis by (simp add: f_def computeTransformedPoints_def)
  next
    case True
    obtain b' r' c' where g: "getCoordinates y R C = (b', r', c')"
      by (cases "getCoordinates y R C") auto
    from getCoordinates_inverse [OF g True [unfolded np_def]]
    have y: "y = b' * (R * C) + r' * C + c'" and b': "b' < B" and r': "r' < R" and c': "c' < C"
      by simp_all
    have ne: "\<not> (b = b' \<and> r = r' \<and> c = c')"
      using that y unfolding t0_def by auto
    show ?thesis
      unfolding y cell [OF b' r' c']
      using ne i r c r' c' by (auto simp: A_inj)
  qed
  have "fold f [0..<nb * 256] tfmpoints (A b i r c) = val b r c i"
    using t0_in hit miss
    by (intro fold_hit [where pr = "\<lambda>m. m (A b i r c)" and x = t0 and f = f]) auto
  then show ?thesis
    unfolding launch by (simp add: at4_def A_def val_def)
qed

text \<open>
  Claim C1 (forward blend). For points \<open>B \<times> 3 \<times> R \<times> C\<close>, masks \<open>B \<times> K \<times> R \<times> C\<close> and
  transforms \<open>B \<times> K \<times> 12\<close>, the launch leaves at every cell \<open>(b, r, c)\<close> and coordinate
  \<open>i\<close> the value \<open>p + \<Sum>\<^sub>k w\<^sub>k * (R\<^sub>k p + t\<^sub>k - p)\<close>, with \<open>p\<close> the input point of the cell,
  \<open>w\<^sub>k\<close> its mask weights and \<open>R\<^sub>k\<close>, \<open>t\<^sub>k\<close> the transforms of batch \<open>b\<close>, whatever the
  output buffer and constant memory held before.
\<close>

theorem forward_blend:
  fixes points masks tfms constTfms0 tfmpoints :: buf
  assumes "valid_input B K R C ps ms ts nTfmParams"
    and "b < B" and "r < R" and "c < C" and "i < 3"
  shows "at4 (NTfm3D_ForwardLauncher points masks tfms tfmpoints B 3 R C K nTfmParams ps ms ts
               constTfms0) 3 R C b i r c
         = blend (\<lambda>j. at4 points 3 R C b j r c) (\<lambda>k. at4 masks K R C b k r c)
             (\<lambda>k j. tfm_at tfms K b k j) K i"
  using assms by (rule forward_launch_cell)

lemma ex_valid_input: "valid_input 1 1 1 1 [3, 1, 1, 1] [1, 1, 1, 1] [12, 12, 1] 12"
  by (simp add: valid_input_def)

theorem forward_blend_witness:
  "at4 (NTfm3D_ForwardLauncher (tdata ex_points) (tdata ex_masks) (tdata ex_tfms) (\<lambda>a. 7)
          1 3 1 1 1 12 [3, 1, 1, 1] [1, 1, 1, 1] [12, 12, 1] (\<lambda>a. 7)) 3 1 1 0 0 0 0 = 1
   \<and> at4 (NTfm3D_ForwardLauncher (tdata ex_points) (tdata ex_masks) (tdata ex_tfms) (\<lambda>a. 7)
          1 3 1 1 1 12 [3, 1, 1, 1] [1, 1, 1, 1] [12, 12, 1] (\<lambda>a. 7)) 3 1 1 0 1 0 0 = 1
   \<and> at4 (NTfm3D_ForwardLauncher (tdata ex_points) (tdata ex_masks) (tdata ex_tfms) (\<lambda>a. 7)
          1 3 1 1 1 12 [3, 1, 1, 1] [1, 1, 1, 1] [12, 12, 1] (\<lambda>a. 7)) 3 1 1 0 2 0 0 = 0"
  using forward_blend [OF ex_valid_input, of 0 0 0 0 "tdata ex_points" "tdata ex_masks"
      "tdata ex_tfms" "\<lambda>a. 7" "\<lambda>a. 7"]
    forward_blend [OF ex_valid_input, of 0 0 0 1 "tdata ex_points" "tdata ex_masks"
      "tdata ex_tfms" "\<lambda>a. 7" "\<lambda>a. 7"]
    forward_blend [OF ex_valid_input, of 0 0 0 2 "tdata ex_points" "tdata ex_masks"
      "tdata ex_tfms" "\<lambda>a. 7" "\<lambda>a. 7"]
  by (simp add: blend_def at4_def tfm_at_def ex_points_def ex_masks_def ex_tfms_def buf_of_def)

section \<open>The identity case in single precision\<close>

lemma fmul_zero_finite: "finite32 t \<Longrightarrow> fmul (Num 0) t = Num 0"
  by (cases t) (simp_all add: fl32_def overflow_threshold_def)

lemma fadd_zero_finite: "finite32 a \<Longrightarrow> fadd a (Num 0) = a"
  by (cases a) (auto simp add: fl32_def)

lemma fwd_fold32_identity:
  assumes "finite32 x" "finite32 y" "finite32 z"
    and "\<And>k. k < K \<Longrightarrow> masks (k * ms1 P + valm) = Num 0"
    and "\<And>k. k < K \<Longrightarrow> finite32 (tfm_disp32 (\<lambda>j. cT (b * ts0 P + k * ts1 P + j)) x y z 0 x)"
    and "\<And>k. k < K \<Longrightarrow> finite32 (tfm_disp32 (\<lambda>j. cT (b * ts0 P + k * ts1 P + j)) x y z 4 y)"
    and "\<And>k. k < K \<Longrightarrow> finite32 (tfm_disp32 (\<lambda>j. cT (b * ts0 P + k * ts1 P + j)) x y z 8 z)"
  shows "fold (fwd_step32 P masks cT b valm (x, y, z)) [0..<K] (x, y, z) = (x, y, z)"
  using assms(4-)
proof (induction K)
  case 0
  then show ?case by simp
next
  case (Suc K)
  then show ?case
    by (simp add: fwd_step32_def Let_def fmul_zero_finite fadd_zero_finite assms(1,2,3))
qed

lemma tfm_disp32_cong:
  assumes "T j = T' j" "T (j + 1) = T' (j + 1)" "T (j + 2) = T' (j + 2)" "T (j + 3) = T' (j + 3)"
  shows "tfm_disp32 T x y z j q = tfm_disp32 T' x y z j q"
  using assms by (simp add: tfm_disp32_def)

text \<open>What the launch leaves at a cell: what the loop of the cell's thread ends with.\<close>

lemma forward_launch32_cell:
  fixes points masks tfms cT0 tfmpoints :: "nat \<Rightarrow> float32"
  assumes v: "valid_input B K R C ps ms ts n" and b: "b < B" and r: "r < R" and c: "c < C"
    and i: "i < 3"
  shows "NTfm3D_ForwardLauncher32 points masks tfms tfmpoints B 3 R C K n ps ms ts cT0
           (b * (3 * R * C) + i * (R * C) + r * C + c)
         = (case fold (fwd_step32 (kparams_of R C K ps ms ts) masks
                         (\<lambda>i. if i < n then tfms i else cT0 i) b (b * (K * R * C) + r * C + c)
                         (points (b * (3 * R * C) + 0 * (R * C) + r * C + c),
                          points (b * (3 * R * C) + 1 * (R * C) + r * C + c),
                          points (b * (3 * R * C) + 2 * (R * C) + r * C + c)))
                   [0..<K]
                   (points (b * (3 * R * C) + 0 * (R * C) + r * C + c),
                    points (b * (3 * R * C) + 1 * (R * C) + r * C + c),
                    points (b * (3 * R * C) + 2 * (R * C) + r * C + c))
            of (xt, yt, zt) \<Rightarrow> [xt, yt, zt] ! i)"
proof -
  define P where "P = kparams_of R C K ps ms ts"
  define cT where "cT = (\<lambda>i. if i < n then tfms i else cT0 i)"
  define np where "np = B * R * C"
  define nb where "nb = nat \<lceil>real np * (1 / 256)\<rceil>"
  define f where "f = computeTransformedPoints32 P np points masks cT 0 0"
  define A where "A = (\<lambda>b i r c. b * (3 * R * C) + i * (R * C) + r * C + c)"
  define val where "val = (\<lambda>b r c.
      fold (fwd_step32 P masks cT b (b * (K * R * C) + r * C + c)
              (points (A b 0 r c), points (A b 1 r c), points (A b 2 r c)))
        [0..<K] (points (A b 0 r c), points (A b 1 r c), points (A b 2 r c)))"
  have thr: "computeTransformedPoints32 P np points masks cT blk 256 t = f (blk * 256 + t)"
    for blk t
    by (rule ext) (simp add: f_def computeTransformedPoints32_def)
  have launch: "NTfm3D_ForwardLauncher32 points masks tfms tfmpoints B 3 R C K n ps ms ts cT0
                = fold f [0..<nb * 256] tfmpoints"
    unfolding NTfm3D_ForwardLauncher32_def Let_def P_def [symmetric] cT_def [symmetric]
      np_def [symmetric] nb_def [symmetric] thr
    by (rule fold_blocks_threads)
  have cell: "f (b' * (R * C) + r' * C + c') m
         = (case val b' r' c' of (xt, yt, zt) \<Rightarrow>
              m(A b' 0 r' c' := xt, A b' 1 r' c' := yt, A b' 2 r' c' := zt))"
    if "b' < B" "r' < R" "c' < C" for b' r' c' m
  proof -
    have lt: "b' * (R * C) + r' * C + c' < B * R * C" using that by (rule cell_lt)
    have a: "A b' 0 r' c' = b' * (3 * R * C) + r' * C + c'"
      "A b' 1 r' c' = R * C + (b' * (3 * R * C) + r' * C + c')"
      "A b' 2 r' c' = 2 * (R * C) + (b' * (3 * R * C) + r' * C + c')"
      by (simp_all add: A_def)
    show ?thesis
      unfolding val_def a
      using lt
      by (simp add: f_def computeTransformedPoints32_def P_def np_def valid_kparams [OF v]
          getCoordinates_cell [OF that(2,3)] Let_def)
  qed
  have A_inj: "(A b1 i1 r1 c1 = A b2 i2 r2 c2) = (b1 = b2 \<and> i1 = i2 \<and> r1 = r2 \<and> c1 = c2)"
    if "i1 < 3" "i2 < 3" "r1 < R" "r2 < R" "c1 < C" "c2 < C" for b1 i1 r1 c1 b2 i2 r2 c2
    unfolding A_def using addr4_inj [of b1 3 R C i1 r1 c1 b2 i2 r2 c2] that by auto
  define t0 where "t0 = b * (R * C) + r * C + c"
  define res where "res = (case val b r c of (xt, yt, zt) \<Rightarrow> [xt, yt, zt] ! i)"
  have i_cases: "i = 0 \<or> i = 1 \<or> i = 2" using i by arith
  have t0_lt: "t0 < np" unfolding t0_def np_def using b r c by (rule cell_lt)
  have "np \<le> nb * 256" unfolding nb_def using blocks_cover [of 256 np] by simp
  then have t0_in: "t0 \<in> set [0..<nb * 256]" using t0_lt by simp
  have hit: "f t0 s (A b i r c) = res" for s
    unfolding t0_def cell [OF b r c] res_def
    using i_cases r c by (auto simp: A_inj split: prod.splits)
  have miss: "f y s (A b i r c) = s (A b i r c)" if "y \<noteq> t0" for y s
  proof (cases "y < np")
    case False
    then show ?thesis by (simp add: f_def computeTransformedPoints32_def)
  next
    case True
    obtain b' r' c' where g: "getCoordinates y R C = (b', r', c')"
      by (cases "getCoordinates y R C") auto
    from getCoordinates_inverse [OF g True [unfolded np_def]]
    have y: "y = b' * (R * C) + r' * C + c'" and b': "b' < B" and r': "r' < R" and c': "c' < C"
      by simp_all
    have ne: "\<not> (b = b' \<and> r = r' \<and> c = c')"
      using that y unfolding t0_def by auto
    show ?thesis
      unfolding y cell [OF b' r' c']
      using ne i r c r' c' by (auto simp: A_inj split: prod.splits)
  qed
  have "fold f [0..<nb * 256] tfmpoints (A b i r c) = res"
    using t0_in hit miss
    by (intro fold_hit [where pr = "\<lambda>m. m (A b i r c)" and x = t0 and f = f]) auto
  then show ?thesis
    unfolding launch by (simp add: A_def res_def val_def P_def cT_def)
qed

text \<open>
  Claim C7 (identity case), with overflow taken into account. When every mask weight is
  zero, every point value is finite and, for every cell and transform, the displacement
  \<open>R\<^sub>k p + t\<^sub>k - p\<close> the kernel computes stays finite, the launch returns the input point
  field: every coordinate of every cell of the output equals that of the input. A
  displacement is finite only if the transform entries it reads are.
\<close>

theorem forward_identity_without_overflow:
  fixes points masks tfms constTfms0 tfmpoints :: "nat \<Rightarrow> float32"
  assumes "valid_input B K R C ps ms ts nTfmParams"
    and "\<forall>b<B. \<forall>k<K. \<forall>r<R. \<forall>c<C. at4_32 masks K R C b k r c = Num 0"
    and "\<forall>b<B. \<forall>i<3. \<forall>r<R. \<forall>c<C. finite32 (at4_32 points 3 R C b i r c)"
    and "\<forall>b<B. \<forall>k<K. \<forall>i<3. \<forall>r<R. \<forall>c<C.
           finite32 (tfm_disp32 (tfm_32 tfms K b k) (at4_32 points 3 R C b 0 r c)
                       (at4_32 points 3 R C b 1 r c) (at4_32 points 3 R C b 2 r c) (4 * i)
                       (at4_32 points 3 R C b i r c))"
  shows "\<forall>b<B. \<forall>i<3. \<forall>r<R. \<forall>c<C.
           at4_32 (NTfm3D_ForwardLauncher32 points masks tfms tfmpoints B 3 R C K nTfmParams
                     ps ms ts constTfms0) 3 R C b i r c
           = at4_32 points 3 R C b i r c"
proof (intro allI impI)
  fix b i r c :: nat
  assume b: "b < B" and i: "i < 3" and r: "r < R" and c: "c < C"
  define P where "P = kparams_of R C K ps ms ts"
  define cT where "cT = (\<lambda>i. if i < nTfmParams then tfms i else constTfms0 i)"
  define x where "x = at4_32 points 3 R C b 0 r c"
  define y where "y = at4_32 points 3 R C b 1 r c"
  define z where "z = at4_32 points 3 R C b 2 r c"
  have n: "nTfmParams = B * K * 12" using assms(1) by (simp add: valid_input_def)
  have fin: "finite32 x" "finite32 y" "finite32 z"
    using assms(3) b r c by (simp_all add: x_def y_def z_def)
  have w: "masks (k * ms1 P + (b * (K * R * C) + r * C + c)) = Num 0" if "k < K" for k
    using assms(2) b r c that
    by (simp add: at4_32_def P_def valid_kparams [OF assms(1)] add_ac)
  have T: "cT (b * ts0 P + k * ts1 P + j) = tfm_32 tfms K b k j" if "k < K" "j < 12" for k j
  proof -
    have "k * 12 + j < K * 12" using that by simp
    then have "b * (K * 12) + k * 12 + j < (b + 1) * (K * 12)" by simp
    also have "\<dots> \<le> B * (K * 12)" using b by (intro mult_le_mono1) simp
    finally show ?thesis
      by (simp add: cT_def n tfm_32_def P_def valid_kparams [OF assms(1)] mult.assoc)
  qed
  have d: "finite32 (tfm_disp32 (\<lambda>j. cT (b * ts0 P + k * ts1 P + j)) x y z (4 * i') q)
           = finite32 (tfm_disp32 (tfm_32 tfms K b k) x y z (4 * i') q)"
    if "k < K" "i' < 3" for k i' q
  proof -
    have e: "cT (b * ts0 P + k * ts1 P + j) = tfm_32 tfms K b k j" if "j < 12" for j
      using T [OF \<open>k < K\<close> that] .
    have "tfm_disp32 (\<lambda>j. cT (b * ts0 P + k * ts1 P + j)) x y z (4 * i') q
          = tfm_disp32 (tfm_32 tfms K b k) x y z (4 * i') q"
      by (rule tfm_disp32_cong; rule e; use that in simp)
    then show ?thesis by simp
  qed
  have a4: "finite32 (tfm_disp32 (tfm_32 tfms K b k) x y z (4 * i') (at4_32 points 3 R C b i' r c))"
    if "k < K" "i' < 3" for k i'
    using assms(4) b r c that unfolding x_def y_def z_def by blast
  have d0: "finite32 (tfm_disp32 (\<lambda>j. cT (b * ts0 P + k * ts1 P + j)) x y z 0 x)"
    if "k < K" for k
    using d [OF that, of 0 x] a4 [OF that, of 0] by (simp add: x_def)
  have d1: "finite32 (tfm_disp32 (\<lambda>j. cT (b * ts0 P + k * ts1 P + j)) x y z 4 y)"
    if "k < K" for k
    using d [OF that, of 1 y] a4 [OF that, of 1] by (simp add: y_def)
  have d2: "finite32 (tfm_disp32 (\<lambda>j. cT (b * ts0 P + k * ts1 P + j)) x y z 8 z)"
    if "k < K" for k
    using d [OF that, of 2 z] a4 [OF that, of 2] by (simp add: z_def)
  have loop: "fold (fwd_step32 P masks cT b (b * (K * R * C) + r * C + c) (x, y, z)) [0..<K]
                (x, y, z) = (x, y, z)"
    using fin w d0 d1 d2 by (rule fwd_fold32_identity)
  have "i = 0 \<or> i = 1 \<or> i = 2" using i by arith
  then have "(case (x, y, z) of (xt, yt, zt) \<Rightarrow> [xt, yt, zt] ! i) = at4_32 points 3 R C b i r c"
    by (auto simp add: x_def y_def z_def)
  then show "at4_32 (NTfm3D_ForwardLauncher32 points masks tfms tfmpoints B 3 R C K nTfmParams
                       ps ms ts constTfms0) 3 R C b i r c
             = at4_32 points 3 R C b i r c"
    using forward_launch32_cell [OF assms(1) b r c i, where points = points and masks = masks
        and tfms = tfms and tfmpoints = tfmpoints and ?cT0.0 = constTfms0] loop
    unfolding P_def cT_def x_def y_def z_def at4_32_def
    by simp
qed

theorem forward_identity_without_overflow_witness:
  "at4_32 (NTfm3D_ForwardLauncher32 (buf32_of [1, 0, 0]) (\<lambda>a. Num 0)
             (buf32_of [1, 0, 0, 0,  0, 1, 0, 1,  0, 0, 1, 0]) (\<lambda>a. NaN)
             1 3 1 1 1 12 [3, 1, 1, 1] [1, 1, 1, 1] [12, 12, 1] (\<lambda>a. NaN)) 3 1 1 0 0 0 0 = Num 1
   \<and> at4_32 (NTfm3D_ForwardLauncher32 (buf32_of [1, 0, 0]) (\<lambda>a. Num 0)
             (buf32_of [1, 0, 0, 0,  0, 1, 0, 1,  0, 0, 1, 0]) (\<lambda>a. NaN)
             1 3 1 1 1 12 [3, 1, 1, 1] [1, 1, 1, 1] [12, 12, 1] (\<lambda>a. NaN)) 3 1 1 0 1 0 0 = Num 0"
proof -
  have z: "\<forall>b<1. \<forall>k<1. \<forall>r<1. \<forall>c<1. at4_32 (\<lambda>a. Num 0) 1 1 1 b k r c = Num 0"
    by (simp add: at4_32_def)
  have p: "\<forall>b<1. \<forall>i<3. \<forall>r<1. \<forall>c<1. finite32 (at4_32 (buf32_of [1, 0, 0]) 3 1 1 b i r c)"
    by (simp add: at4_32_def buf32_of_def overflow_threshold_def numeral_3_eq_3 less_Suc_eq)
  have d: "\<forall>b<1. \<forall>k<1. \<forall>i<3. \<forall>r<1. \<forall>c<1.
           finite32 (tfm_disp32 (tfm_32 (buf32_of [1, 0, 0, 0,  0, 1, 0, 1,  0, 0, 1, 0]) 1 b k)
                       (at4_32 (buf32_of [1, 0, 0]) 3 1 1 b 0 r c)
                       (at4_32 (buf32_of [1, 0, 0]) 3 1 1 b 1 r c)
                       (at4_32 (buf32_of [1, 0, 0]) 3 1 1 b 2 r c) (4 * i)
                       (at4_32 (buf32_of [1, 0, 0]) 3 1 1 b i r c))"
    by (simp add: at4_32_def tfm_32_def buf32_of_def tfm_disp32_def fsub_def fl32_def
        overflow_threshold_def numeral_3_eq_3 less_Suc_eq)
  have v: "at4_32 (buf32_of [1, 0, 0]) 3 1 1 0 0 0 0 = Num 1"
    "at4_32 (buf32_of [1, 0, 0]) 3 1 1 0 1 0 0 = Num 0"
    by (simp_all add: at4_32_def buf32_of_def)
  from forward_identity_without_overflow [OF ex_valid_input z p d, of "\<lambda>a. NaN" "\<lambda>a. NaN"]
  show ?thesis using v by simp
qed

text \<open>
  The identity fails on finite values once a product overflows: for the point
  \<open>(2\<^sup>1\<^sup>0\<^sup>0, 0, 0)\<close>, weight zero and a transform with \<open>T[0] = 2\<^sup>1\<^sup>0\<^sup>0\<close> and zeros elsewhere,
  \<open>T[0] * x\<close> is an infinity, the displacement is an infinity, zero times it is NaN, and
  the first coordinate of the output is NaN, not \<open>2\<^sup>1\<^sup>0\<^sup>0\<close>.
\<close>

theorem forward_identity_fails_on_overflow:
  "valid_input 1 1 1 1 [3, 1, 1, 1] [1, 1, 1, 1] [12, 12, 1] 12
   \<and> at4_32 (\<lambda>a. Num 0) 1 1 1 0 0 0 0 = Num 0
   \<and> (\<forall>a. finite32 (ex_large a))
   \<and> at4_32 ex_large 3 1 1 0 0 0 0 = Num (2 ^ 100)
   \<and> tfm_disp32 (tfm_32 ex_large 1 0 0) (Num (2 ^ 100)) (Num 0) (Num 0) 0 (Num (2 ^ 100))
     = PlusInf
   \<and> at4_32 (NTfm3D_ForwardLauncher32 ex_large (\<lambda>a. Num 0) ex_large (\<lambda>a. Num 0)
               1 3 1 1 1 12 [3, 1, 1, 1] [1, 1, 1, 1] [12, 12, 1] (\<lambda>a. Num 0)) 3 1 1 0 0 0 0
     = NaN
   \<and> at4_32 (NTfm3D_ForwardLauncher32 ex_large (\<lambda>a. Num 0) ex_large (\<lambda>a. Num 0)
               1 3 1 1 1 12 [3, 1, 1, 1] [1, 1, 1, 1] [12, 12, 1] (\<lambda>a. Num 0)) 3 1 1 0 0 0 0
     \<noteq> at4_32 ex_large 3 1 1 0 0 0 0"
proof -
  have "NTfm3D_ForwardLauncher32 ex_large (\<lambda>a. Num 0) ex_large (\<lambda>a. Num 0)
          1 3 1 1 1 12 [3, 1, 1, 1] [1, 1, 1, 1] [12, 12, 1] (\<lambda>a. Num 0)
          (0 * (3 * 1 * 1) + 0 * (1 * 1) + 0 * 1 + 0) = NaN"
    using forward_launch32_cell [OF ex_valid_input, where b = 0 and r = 0 and c = 0
        and i = 0 and points = ex_large and masks = "\<lambda>a. Num 0" and tfms = ex_large
        and tfmpoints = "\<lambda>a. Num 0" and ?cT0.0 = "\<lambda>a. Num 0"]
    by (simp add: fwd_step32_def tfm_disp32_def fsub_def fl32_def overflow_threshold_def
        ex_large_def kparams_of_def Let_def)
  then show ?thesis
    by (simp add: valid_input_def at4_32_def tfm_32_def ex_large_def tfm_disp32_def fsub_def
        fl32_def overflow_threshold_def)
qed


section \<open>Background cells of the flow and visibility routine\<close>

lemma visflow_cell_background:
  "fa_label1 A (b * (fa_ls A ! 0) + r * (fa_ls A ! 2) + c * (fa_ls A ! 3)) = 0 \<Longrightarrow>
   visflow_cell A b r c (vis, fl)
     = (vis(b * (fa_ls A ! 0) + r * (fa_ls A ! 2) + c * (fa_ls A ! 3) := 1), fl)"
  by (simp add: visflow_cell_def Let_def)

lemma visflow_cell_vis_other:
  "a \<noteq> b * (fa_ls A ! 0) + r * (fa_ls A ! 2) + c * (fa_ls A ! 3) \<Longrightarrow>
   fst (visflow_cell A b r c st) a = fst st a"
  by (cases st) (simp add: visflow_cell_def Let_def split: prod.splits)

lemma visflow_cell_flow_other:
  "\<forall>i<3. a \<noteq> i * (fa_cs A ! 1) + (b * (fa_cs A ! 0) + r * (fa_cs A ! 2) + c * (fa_cs A ! 3)) \<Longrightarrow>
   snd (visflow_cell A b r c st) a = snd st a"
proof -
  assume h: "\<forall>i<3. a \<noteq> i * (fa_cs A ! 1)
                      + (b * (fa_cs A ! 0) + r * (fa_cs A ! 2) + c * (fa_cs A ! 3))"
  have "a \<noteq> b * (fa_cs A ! 0) + r * (fa_cs A ! 2) + c * (fa_cs A ! 3)"
    "a \<noteq> fa_cs A ! 1 + (b * (fa_cs A ! 0) + r * (fa_cs A ! 2) + c * (fa_cs A ! 3))"
    "a \<noteq> 2 * (fa_cs A ! 1) + (b * (fa_cs A ! 0) + r * (fa_cs A ! 2) + c * (fa_cs A ! 3))"
    using h [rule_format, of 0] h [rule_format, of 1] h [rule_format, of 2] by simp_all
  then show ?thesis
    by (cases st) (simp add: visflow_cell_def Let_def split: prod.splits)
qed


lemma fold3_frame:
  assumes "\<And>x y z s. x \<in> set xs \<Longrightarrow> y \<in> set ys \<Longrightarrow> z \<in> set zs \<Longrightarrow> pr (f x y z s) = pr s"
  shows "pr (fold (\<lambda>x. fold (\<lambda>y. fold (\<lambda>z. f x y z) zs) ys) xs s) = pr s"
  by (intro fold_frame assms)

lemma fold3_hit:
  assumes x: "x \<in> set xs" and y: "y \<in> set ys" and z: "z \<in> set zs"
    and hit: "\<And>s. pr (f x y z s) = v"
    and miss: "\<And>x' y' z' s. x' \<in> set xs \<Longrightarrow> y' \<in> set ys \<Longrightarrow> z' \<in> set zs
                 \<Longrightarrow> (x', y', z') \<noteq> (x, y, z) \<Longrightarrow> pr (f x' y' z' s) = pr s"
  shows "pr (fold (\<lambda>x. fold (\<lambda>y. fold (\<lambda>z. f x y z) zs) ys) xs s) = v"
proof (rule fold_hit [where x = x, OF x])
  fix s
  show "pr (fold (\<lambda>y. fold (\<lambda>z. f x y z) zs) ys s) = v"
  proof (rule fold_hit [where x = y, OF y])
    fix s
    show "pr (fold (\<lambda>z. f x y z) zs s) = v"
    proof (rule fold_hit [where x = z, OF z])
      fix s show "pr (f x y z s) = v" by (rule hit)
    next
      fix z' s assume "z' \<in> set zs" "z' \<noteq> z"
      then show "pr (f x y z' s) = pr s" using miss [OF x y] by simp
    qed
  next
    fix y' s assume "y' \<in> set ys" "y' \<noteq> y"
    then show "pr (fold (\<lambda>z. f x y' z) zs s) = pr s"
      using miss [OF x] by (intro fold_frame) simp
  qed
next
  fix x' s assume "x' \<in> set xs" "x' \<noteq> x"
  then show "pr (fold (\<lambda>y. fold (\<lambda>z. f x' y z) zs) ys s) = pr s"
    using miss by (intro fold_frame) simp
qed

lemma cell_inj:
  fixes b r c b' r' c' :: nat
  assumes "b * (R * C) + r * C + c = b' * (R * C) + r' * C + c'"
    and "r < R" "r' < R" "c < C" "c' < C"
  shows "b = b' \<and> r = r' \<and> c = c'"
proof -
  have e: "(b * R + r) * C + c = (b' * R + r') * C + c'"
    using assms(1) unfolding cell_index_split .
  from radix_inj [OF e assms(4,5)] have 1: "b * R + r = b' * R + r'" and c: "c = c'"
    by simp_all
  from radix_inj [OF 1 assms(2,3)] show ?thesis using c by simp
qed

lemma pass_background:
  assumes cs: "fa_cs A = [3 * R * C, R * C, C, 1]" and ls: "fa_ls A = [R * C, R * C, C, 1]"
    and dims: "fa_batchsize A = B" "fa_nrows A = R" "fa_ncols A = C"
    and b: "b < B" and r: "r < R" and c: "c < C"
    and bg: "fa_label1 A (b * (R * C) + r * C + c) = 0"
  shows "fst (compute_visibility_and_flows A (vis0, fl0)) (b * (R * C) + r * C + c) = 1"
    and "i < 3 \<Longrightarrow> snd (compute_visibility_and_flows A (vis0, fl0))
                     (b * (3 * R * C) + i * (R * C) + r * C + c)
                   = fl0 (b * (3 * R * C) + i * (R * C) + r * C + c)"
proof -
  have l: "fa_ls A ! 0 = R * C" "fa_ls A ! 2 = C" "fa_ls A ! 3 = 1"
    and s: "fa_cs A ! 0 = 3 * R * C" "fa_cs A ! 1 = R * C" "fa_cs A ! 2 = C" "fa_cs A ! 3 = 1"
    by (simp_all add: cs ls)
  have s': "fa_cs A ! Suc 0 = R * C" by (simp add: cs)
  have mem: "b \<in> set [0..<B]" "r \<in> set [0..<R]" "c \<in> set [0..<C]"
    using b r c by simp_all
  show "fst (compute_visibility_and_flows A (vis0, fl0)) (b * (R * C) + r * C + c) = 1"
    unfolding compute_visibility_and_flows_def dims
  proof (rule fold3_hit [where pr = "\<lambda>st. fst st (b * (R * C) + r * C + c)", OF mem])
    fix st :: "bytebuf \<times> buf"
    show "fst (visflow_cell A b r c st) (b * (R * C) + r * C + c) = 1"
      using visflow_cell_background [of A b r c "fst st" "snd st"] bg by (simp add: l)
  next
    fix b' r' c' and st :: "bytebuf \<times> buf"
    assume "b' \<in> set [0..<B]" "r' \<in> set [0..<R]" "c' \<in> set [0..<C]"
      and ne: "(b', r', c') \<noteq> (b, r, c)"
    then have "r' < R" "c' < C" by simp_all
    then have "b * (R * C) + r * C + c \<noteq> b' * (R * C) + r' * C + c'"
      using cell_inj [of b R C r c b' r' c'] r c ne by auto
    then show "fst (visflow_cell A b' r' c' st) (b * (R * C) + r * C + c)
               = fst st (b * (R * C) + r * C + c)"
      by (intro visflow_cell_vis_other) (simp add: l)
  qed
  assume i: "i < 3"
  show "snd (compute_visibility_and_flows A (vis0, fl0))
          (b * (3 * R * C) + i * (R * C) + r * C + c)
        = fl0 (b * (3 * R * C) + i * (R * C) + r * C + c)"
  proof -
    have "snd (compute_visibility_and_flows A (vis0, fl0))
            (b * (3 * R * C) + i * (R * C) + r * C + c)
          = snd (vis0, fl0) (b * (3 * R * C) + i * (R * C) + r * C + c)"
      unfolding compute_visibility_and_flows_def dims
    proof (rule fold3_frame
        [where pr = "\<lambda>st. snd st (b * (3 * R * C) + i * (R * C) + r * C + c)"])
      fix b' r' c' and st :: "bytebuf \<times> buf"
      assume "b' \<in> set [0..<B]" "r' \<in> set [0..<R]" "c' \<in> set [0..<C]"
      then have r': "r' < R" and c': "c' < C" by simp_all
      show "snd (visflow_cell A b' r' c' st) (b * (3 * R * C) + i * (R * C) + r * C + c)
            = snd st (b * (3 * R * C) + i * (R * C) + r * C + c)"
      proof (cases "(b', r', c') = (b, r, c)")
        case True
        then show ?thesis
          using visflow_cell_background [of A b r c "fst st" "snd st"] bg by (simp add: l)
      next
        case False
        have "b * (3 * R * C) + i * (R * C) + r * C + c
              \<noteq> b' * (3 * R * C) + i' * (R * C) + r' * C + c'" if "i' < 3" for i'
          using addr4_inj [of b 3 R C i r c b' i' r' c'] i that r c r' c' False by auto
        then have "\<forall>i'<3. b * (3 * R * C) + i * (R * C) + r * C + c
              \<noteq> i' * (fa_cs A ! 1)
                 + (b' * (fa_cs A ! 0) + r' * (fa_cs A ! 2) + c' * (fa_cs A ! 3))"
          by (simp add: s s' add.assoc add.left_commute)
        then show ?thesis by (rule visflow_cell_flow_other)
      qed
    qed
    then show ?thesis by simp
  qed
qed


lemma addr4_lt:
  fixes b i r c :: nat
  assumes "b < B" "i < N1" "r < N2" "c < N3"
  shows "b * (N1 * N2 * N3) + i * (N2 * N3) + r * N3 + c < B * N1 * N2 * N3"
proof -
  have "b * (N1 * N2 * N3) + i * (N2 * N3) + r * N3 + c = ((b * N1 + i) * N2 + r) * N3 + c"
    by (simp add: algebra_simps)
  also have "\<dots> < ((b * N1 + i) * N2 + r + 1) * N3" using assms by simp
  also have "\<dots> \<le> ((b * N1 + i + 1) * N2) * N3"
    using assms by (intro mult_le_mono1) (simp add: algebra_simps)
  also have "\<dots> \<le> (((b + 1) * N1) * N2) * N3"
    using assms by (intro mult_le_mono1) (simp add: algebra_simps)
  also have "\<dots> \<le> ((B * N1) * N2) * N3"
    using assms by (intro mult_le_mono1) simp
  finally show ?thesis by simp
qed

text \<open>
  Claim C10 (background cells). For every cell whose source label is 0, the routine
  leaves visibility 1 and the zero flow of the initial fill, in the pass from \<open>t\<close> to
  \<open>t + 1\<close> (source labels \<open>label_1\<close>) and in the pass back (source labels \<open>label_2\<close>). The
  last conjunct is the step of such a cell: it sets the visibility entry and nothing
  else, whatever the poses, clouds and search window are, so no search takes place.
\<close>

theorem background_visible_zero_flow:
  assumes cs: "fi_cs I = [3 * R * C, R * C, C, 1]" and ls: "fi_ls I = [R * C, R * C, C, 1]"
    and dims: "fi_batchsize I = B" "fi_nrows I = R" "fi_ncols I = C"
    and b: "b < B" and r: "r < R" and c: "c < C"
  shows "(fi_label_1 I (b * (R * C) + r * C + c) = 0 \<longrightarrow>
            fo_fwdvisibility (ComputeFlowAndVisibility_Pts_float I ff bf fv bv l1 l2)
              (b * (R * C) + r * C + c) = 1
            \<and> (\<forall>i<3. at4 (fo_fwdflows (ComputeFlowAndVisibility_Pts_float I ff bf fv bv l1 l2))
                        3 R C b i r c = 0))
       \<and> (fi_label_2 I (b * (R * C) + r * C + c) = 0 \<longrightarrow>
            fo_bwdvisibility (ComputeFlowAndVisibility_Pts_float I ff bf fv bv l1 l2)
              (b * (R * C) + r * C + c) = 1
            \<and> (\<forall>i<3. at4 (fo_bwdflows (ComputeFlowAndVisibility_Pts_float I ff bf fv bv l1 l2))
                        3 R C b i r c = 0))
       \<and> (\<forall>A vis fl.
            fa_label1 A (b * (fa_ls A ! 0) + r * (fa_ls A ! 2) + c * (fa_ls A ! 3)) = 0 \<longrightarrow>
            visflow_cell A b r c (vis, fl)
              = (vis(b * (fa_ls A ! 0) + r * (fa_ls A ! 2) + c * (fa_ls A ! 3) := 1), fl))"
proof -
  obtain local1 local2 where loc:
    "fold (\<lambda>b. fold (\<lambda>r. fold (\<lambda>c. local_cell I b r c) [0..<C]) [0..<R]) [0..<B] (l1, l2)
     = (local1, local2)"
    by (cases "fold (\<lambda>b. fold (\<lambda>r. fold (\<lambda>c. local_cell I b r c) [0..<C]) [0..<R]) [0..<B]
                (l1, l2)") auto
  define A1 where "A1 =
     \<lparr>fa_cloud1 = fi_cloud_1 I, fa_cloud2 = fi_cloud_2 I, fa_local1 = local1,
      fa_local2 = local2, fa_label1 = fi_label_1 I, fa_label2 = fi_label_2 I,
      fa_poses2 = fi_poses_2 I, fa_cs = fi_cs I, fa_ls = fi_ls I, fa_ps = fi_ps I,
      fa_fx = fi_fx I, fa_fy = fi_fy I, fa_cx = fi_cx I, fa_cy = fi_cy I,
      fa_threshold = fi_threshold I, fa_winsize = fi_winsize I,
      fa_batchsize = B, fa_nrows = R, fa_ncols = C\<rparr>"
  define A2 where "A2 =
     \<lparr>fa_cloud1 = fi_cloud_2 I, fa_cloud2 = fi_cloud_1 I, fa_local1 = local2,
      fa_local2 = local1, fa_label1 = fi_label_2 I, fa_label2 = fi_label_1 I,
      fa_poses2 = fi_poses_1 I, fa_cs = fi_cs I, fa_ls = fi_ls I,
      fa_ps = fi_ps I, fa_fx = fi_fx I, fa_fy = fi_fy I, fa_cx = fi_cx I,
      fa_cy = fi_cy I, fa_threshold = fi_threshold I,
      fa_winsize = fi_winsize I, fa_batchsize = B, fa_nrows = R,
      fa_ncols = C\<rparr>"
  define v1 where "v1 = fill_first (B * 1 * R * C) (0 :: 8 word) fv"
  define v2 where "v2 = fill_first (B * 1 * R * C) (0 :: 8 word) bv"
  define f1 where "f1 = fill_first (B * 3 * R * C) (0 :: real) ff"
  define f2 where "f2 = fill_first (B * 3 * R * C) (0 :: real) bf"
  have out: "fo_fwdvisibility (ComputeFlowAndVisibility_Pts_float I ff bf fv bv l1 l2)
               = fst (compute_visibility_and_flows A1 (v1, f1))"
    "fo_fwdflows (ComputeFlowAndVisibility_Pts_float I ff bf fv bv l1 l2)
               = snd (compute_visibility_and_flows A1 (v1, f1))"
    "fo_bwdvisibility (ComputeFlowAndVisibility_Pts_float I ff bf fv bv l1 l2)
               = fst (compute_visibility_and_flows A2 (v2, f2))"
    "fo_bwdflows (ComputeFlowAndVisibility_Pts_float I ff bf fv bv l1 l2)
               = snd (compute_visibility_and_flows A2 (v2, f2))"
    unfolding ComputeFlowAndVisibility_Pts_float_def Let_def dims loc
      v1_def [symmetric] v2_def [symmetric] f1_def [symmetric] f2_def [symmetric]
    by (auto simp: A1_def A2_def split: prod.splits)
  have zero: "f1 (b * (3 * R * C) + i * (R * C) + r * C + c) = 0"
    "f2 (b * (3 * R * C) + i * (R * C) + r * C + c) = 0" if "i < 3" for i
    using addr4_lt [OF b that r c] by (simp_all add: f1_def f2_def fill_first_def)
  have A1: "fa_cs A1 = [3 * R * C, R * C, C, 1]" "fa_ls A1 = [R * C, R * C, C, 1]"
    "fa_batchsize A1 = B" "fa_nrows A1 = R" "fa_ncols A1 = C" "fa_label1 A1 = fi_label_1 I"
    and A2: "fa_cs A2 = [3 * R * C, R * C, C, 1]" "fa_ls A2 = [R * C, R * C, C, 1]"
    "fa_batchsize A2 = B" "fa_nrows A2 = R" "fa_ncols A2 = C" "fa_label1 A2 = fi_label_2 I"
    by (simp_all add: A1_def A2_def cs ls)
  have fwd: "fst (compute_visibility_and_flows A1 (v1, f1)) (b * (R * C) + r * C + c) = 1
     \<and> (\<forall>i<3. at4 (snd (compute_visibility_and_flows A1 (v1, f1))) 3 R C b i r c = 0)"
    if "fi_label_1 I (b * (R * C) + r * C + c) = 0"
    using pass_background [OF A1(1-5) b r c, where ?vis0.0 = v1 and ?fl0.0 = f1] that zero
    by (simp add: A1(6) at4_def)
  have bwd: "fst (compute_visibility_and_flows A2 (v2, f2)) (b * (R * C) + r * C + c) = 1
     \<and> (\<forall>i<3. at4 (snd (compute_visibility_and_flows A2 (v2, f2))) 3 R C b i r c = 0)"
    if "fi_label_2 I (b * (R * C) + r * C + c) = 0"
    using pass_background [OF A2(1-5) b r c, where ?vis0.0 = v2 and ?fl0.0 = f2] that zero
    by (simp add: A2(6) at4_def)
  show ?thesis
    unfolding out using fwd bwd visflow_cell_background by blast
qed

lemma ex_flow_shape:
  "fi_cs ex_flow_input = [3 * 1 * 1, 1 * 1, 1, 1]" "fi_ls ex_flow_input = [1 * 1, 1 * 1, 1, 1]"
  "fi_batchsize ex_flow_input = 1" "fi_nrows ex_flow_input = 1" "fi_ncols ex_flow_input = 1"
  by (simp_all add: ex_flow_input_def)

theorem background_visible_zero_flow_witness:
  "fo_fwdvisibility (ComputeFlowAndVisibility_Pts_float ex_flow_input (\<lambda>a. 7) (\<lambda>a. 7)
      (\<lambda>a. 5) (\<lambda>a. 5) (\<lambda>a. 7) (\<lambda>a. 7)) 0 = 1
   \<and> fo_fwdflows (ComputeFlowAndVisibility_Pts_float ex_flow_input (\<lambda>a. 7) (\<lambda>a. 7)
      (\<lambda>a. 5) (\<lambda>a. 5) (\<lambda>a. 7) (\<lambda>a. 7)) 2 = 0
   \<and> fo_bwdvisibility (ComputeFlowAndVisibility_Pts_float ex_flow_input (\<lambda>a. 7) (\<lambda>a. 7)
      (\<lambda>a. 5) (\<lambda>a. 5) (\<lambda>a. 7) (\<lambda>a. 7)) 0 = 1
   \<and> fo_bwdflows (ComputeFlowAndVisibility_Pts_float ex_flow_input (\<lambda>a. 7) (\<lambda>a. 7)
      (\<lambda>a. 5) (\<lambda>a. 5) (\<lambda>a. 7) (\<lambda>a. 7)) 1 = 0"
proof -
  have l: "fi_label_1 ex_flow_input 0 = 0" "fi_label_2 ex_flow_input 0 = 0"
    by (simp_all add: ex_flow_input_def)
  from background_visible_zero_flow [OF ex_flow_shape, of 0 0 0 "\<lambda>a. 7" "\<lambda>a. 7" "\<lambda>a. 5"
      "\<lambda>a. 5" "\<lambda>a. 7" "\<lambda>a. 7"]
  show ?thesis using l by (simp add: at4_def)
qed

section \<open>Threads of a block\<close>

lemma block_threads_ids: "map (thread_id E) (block_threads E) = [0..<nThreads E]"
proof -
  have "map (thread_id E) (concat (map (\<lambda>ty. map (\<lambda>tx. (tx, ty)) [0..<dx]) [0..<n]))
        = [0..<n * dx]" if "dx = blockDim_x E" for n dx
  proof (induction n)
    case 0
    then show ?case by simp
  next
    case (Suc n)
    have "map (thread_id E) (map (\<lambda>tx. (tx, n)) [0..<dx]) = map (\<lambda>tx. n * dx + tx) [0..<dx]"
      by (simp add: thread_id_def that add.commute)
    also have "\<dots> = [n * dx..<n * dx + dx]"
      by (simp add: map_add_upt add.commute)
    finally have last: "map (thread_id E) (map (\<lambda>tx. (tx, n)) [0..<dx]) = [n * dx..<n * dx + dx]" .
    have "[0..<Suc n * dx] = [0..<n * dx] @ [n * dx..<n * dx + dx]"
      using upt_add_eq_append [of 0 "n * dx" dx] by (simp add: add.commute)
    then show ?case using Suc last by simp
  qed
  then show ?thesis
    by (simp add: block_threads_def nThreads_def mult.commute)
qed

lemma block_threads_set:
  "set (block_threads E) = {(tx, ty). tx < blockDim_x E \<and> ty < blockDim_y E}"
  by (auto simp: block_threads_def)

lemma thread_id_lt:
  assumes "t \<in> set (block_threads E)"
  shows "thread_id E t < nThreads E"
proof -
  have "thread_id E t \<in> set (map (thread_id E) (block_threads E))" using assms by simp
  then show ?thesis unfolding block_threads_ids by simp
qed

lemma thread_id_inj:
  assumes "t \<in> set (block_threads E)" "t' \<in> set (block_threads E)"
    and "thread_id E t = thread_id E t'"
  shows "t = t'"
proof -
  obtain tx ty tx' ty' where t: "t = (tx, ty)" "t' = (tx', ty')" by (cases t, cases t') auto
  have lt: "tx < blockDim_x E" "tx' < blockDim_x E"
    using assms(1,2) by (simp_all add: t block_threads_set)
  have "ty * blockDim_x E + tx = ty' * blockDim_x E + tx'"
    using assms(3) by (simp add: t thread_id_def add.commute)
  from radix_inj [OF this lt] show ?thesis by (simp add: t)
qed

lemma fold_by_thread_id:
  assumes "\<And>t. f t = g (thread_id E t)"
  shows "fold f (block_threads E) st = fold g [0..<nThreads E] st"
proof -
  have "f = g \<circ> thread_id E" by (rule ext) (simp add: assms)
  then have "fold f (block_threads E) st = fold (g \<circ> thread_id E) (block_threads E) st"
    by simp
  also have "\<dots> = fold g (map (thread_id E) (block_threads E)) st"
    by (simp add: fold_map)
  finally show ?thesis by (simp add: block_threads_ids)
qed

lemma sum_threads:
  "(\<Sum>i<nThreads E. h i) = (\<Sum>t\<leftarrow>block_threads E. h (thread_id E t))"
proof -
  have "(\<Sum>t\<leftarrow>block_threads E. h (thread_id E t)) = sum_list (map h (map (thread_id E) (block_threads E)))"
    by (simp add: comp_def)
  also have "\<dots> = sum_list (map h [0..<nThreads E])" by (simp only: block_threads_ids)
  also have "\<dots> = (\<Sum>i<nThreads E. h i)"
    by (simp add: interv_sum_list_conv_sum_set_nat lessThan_atLeast0)
  finally show ?thesis by simp
qed



section \<open>The sum of a warp\<close>

lemma sum32: "(\<Sum>l<(32::nat). v l) = v 0 + v 1 + v 2 + v 3 + v 4 + v 5 + v 6 + v 7 + v 8 + v 9
   + v 10 + v 11 + v 12 + v 13 + v 14 + v 15 + v 16 + v 17 + v 18 + v 19 + v 20 + v 21 + v 22
   + v 23 + v 24 + v 25 + v 26 + v 27 + v 28 + v 29 + v 30 + v (31::nat)" for v :: "nat \<Rightarrow> real"
  by (simp add: lessThan_nat_numeral lessThan_Suc)

lemma warpReduceSum_total: "warpReduceSum v 0 = (\<Sum>l<32. v l)"
  unfolding sum32
  by (simp add: warpReduceSum_def shfl_down_add_def numeral_2_eq_2 numeral_3_eq_3)


section \<open>The strided loops\<close>

lemma stride_next:
  fixes a i step :: nat
  assumes "0 < step" "a \<noteq> i"
  shows "(i + step \<le> a \<and> (a - (i + step)) mod step = 0) = (i \<le> a \<and> (a - i) mod step = 0)"
proof
  assume h: "i + step \<le> a \<and> (a - (i + step)) mod step = 0"
  then have "step \<le> a - i" by arith
  then have "(a - i) mod step = (a - i - step) mod step"
    by (rule le_mod_geq)
  moreover have "a - i - step = a - (i + step)" by simp
  ultimately show "i \<le> a \<and> (a - i) mod step = 0" using h by simp
next
  assume h: "i \<le> a \<and> (a - i) mod step = 0"
  then have "step dvd a - i" by (simp add: dvd_eq_mod_eq_0)
  moreover have "0 < a - i" using h assms(2) by simp
  ultimately have le: "step \<le> a - i" by (rule dvd_imp_le)
  then have "(a - i) mod step = (a - i - step) mod step"
    by (rule le_mod_geq)
  moreover have "a - i - step = a - (i + step)" by simp
  moreover have "i + step \<le> a" using le h by arith
  ultimately show "i + step \<le> a \<and> (a - (i + step)) mod step = 0"
    using h by simp
qed

lemma stride_member:
  fixes a tid step :: nat
  assumes "tid < step"
  shows "(tid \<le> a \<and> (a - tid) mod step = 0) = (a mod step = tid)"
proof
  assume h: "tid \<le> a \<and> (a - tid) mod step = 0"
  then have "step dvd a - tid" by (simp add: dvd_eq_mod_eq_0)
  then have "a mod step = tid mod step" using h by (simp add: mod_eq_dvd_iff_nat)
  then show "a mod step = tid" using assms by simp
next
  assume h: "a mod step = tid"
  then have le: "tid \<le> a" by (metis mod_less_eq_dividend)
  have "a mod step = tid mod step" using h assms by simp
  then have "step dvd a - tid" using le by (simp add: mod_eq_dvd_iff_nat)
  then show "tid \<le> a \<and> (a - tid) mod step = 0" using le by (simp add: dvd_eq_mod_eq_0)
qed

lemma zero_loop_closed:
  "0 < step \<Longrightarrow>
   zero_loop n step i sh = (\<lambda>a. if i \<le> a \<and> a < n \<and> (a - i) mod step = 0 then 0 else sh a)"
proof (induction n step i sh rule: zero_loop.induct)
  case (1 n step i sh)
  show ?case
  proof (cases "i < n")
    case True
    have "zero_loop n step i sh = zero_loop n step (i + step) (sh(i := 0))"
      using True "1.prems" by (subst zero_loop.simps) simp
    also have "\<dots> = (\<lambda>a. if i + step \<le> a \<and> a < n \<and> (a - (i + step)) mod step = 0 then 0
                         else (sh(i := 0)) a)"
      by (rule "1.IH") (simp_all add: True "1.prems")
    also have "\<dots> = (\<lambda>a. if i \<le> a \<and> a < n \<and> (a - i) mod step = 0 then 0 else sh a)"
    proof (rule ext)
      fix a
      show "(if i + step \<le> a \<and> a < n \<and> (a - (i + step)) mod step = 0 then 0
             else (sh(i := 0)) a)
            = (if i \<le> a \<and> a < n \<and> (a - i) mod step = 0 then 0 else sh a)"
      proof (cases "a = i")
        case True
        then show ?thesis using \<open>i < n\<close> "1.prems" by simp
      next
        case False
        have "(i + step \<le> a \<and> a < n \<and> (a - (i + step)) mod step = 0)
              = (i \<le> a \<and> a < n \<and> (a - i) mod step = 0)"
          using stride_next [OF "1.prems" False] by (cases "a < n") simp_all
        then show ?thesis using False by simp
      qed
    qed
    finally show ?thesis .
  next
    case False
    have "zero_loop n step i sh = sh" using False by (subst zero_loop.simps) simp
    moreover have "(if i \<le> a \<and> a < n \<and> (a - i) mod step = 0 then 0 else sh a) = sh a" for a
      using False by simp
    ultimately show ?thesis by simp
  qed
qed

lemma zero_loop_thread:
  assumes "tid < step"
  shows "zero_loop n step tid sh = (\<lambda>a. if a < n \<and> a mod step = tid then 0 else sh a)"
proof -
  have s: "0 < step" using assms by simp
  have eq: "(tid \<le> a \<and> a < n \<and> (a - tid) mod step = 0) = (a < n \<and> a mod step = tid)" for a
    using stride_member [OF assms, of a] by (cases "a < n") simp_all
  show ?thesis
    by (simp add: zero_loop_closed [OF s] eq)
qed

lemma atomicAdd_loop_closed:
  "0 < step \<Longrightarrow>
   atomicAdd_loop n step base res i gt
     = (\<lambda>a. if base \<le> a \<and> i \<le> a - base \<and> a - base < n \<and> (a - base - i) mod step = 0
            then gt a + res (a - base) else gt a)"
proof (induction n step base res i gt rule: atomicAdd_loop.induct)
  case (1 n step base res i gt)
  show ?case
  proof (cases "i < n")
    case True
    have "atomicAdd_loop n step base res i gt
          = atomicAdd_loop n step base res (i + step) (gt(base + i := gt (base + i) + res i))"
      using True "1.prems" by (subst atomicAdd_loop.simps) simp
    also have "\<dots> = (\<lambda>a. if base \<le> a \<and> i + step \<le> a - base \<and> a - base < n
                              \<and> (a - base - (i + step)) mod step = 0
                           then (gt(base + i := gt (base + i) + res i)) a + res (a - base)
                           else (gt(base + i := gt (base + i) + res i)) a)"
      by (rule "1.IH") (simp_all add: True "1.prems")
    also have "\<dots> = (\<lambda>a. if base \<le> a \<and> i \<le> a - base \<and> a - base < n
                              \<and> (a - base - i) mod step = 0
                           then gt a + res (a - base) else gt a)"
    proof (rule ext)
      fix a
      show "(if base \<le> a \<and> i + step \<le> a - base \<and> a - base < n
                \<and> (a - base - (i + step)) mod step = 0
             then (gt(base + i := gt (base + i) + res i)) a + res (a - base)
             else (gt(base + i := gt (base + i) + res i)) a)
            = (if base \<le> a \<and> i \<le> a - base \<and> a - base < n \<and> (a - base - i) mod step = 0
               then gt a + res (a - base) else gt a)"
      proof (cases "a = base + i")
        case True
        then show ?thesis using \<open>i < n\<close> "1.prems" by simp
      next
        case ne: False
        show ?thesis
        proof (cases "base \<le> a")
          case True
          then have "a - base \<noteq> i" using ne by arith
          from stride_next [OF "1.prems" this]
          have "(base \<le> a \<and> i + step \<le> a - base \<and> a - base < n
                  \<and> (a - base - (i + step)) mod step = 0)
                = (base \<le> a \<and> i \<le> a - base \<and> a - base < n \<and> (a - base - i) mod step = 0)"
            by (cases "a - base < n") (simp_all add: True)
          then show ?thesis using ne by simp
        next
          case False
          then show ?thesis using ne by simp
        qed
      qed
    qed
    finally show ?thesis .
  next
    case False
    have "atomicAdd_loop n step base res i gt = gt"
      using False by (subst atomicAdd_loop.simps) simp
    moreover have "(if base \<le> a \<and> i \<le> a - base \<and> a - base < n
                        \<and> (a - base - i) mod step = 0
                     then gt a + res (a - base) else gt a) = gt a" for a
      using False by simp
    ultimately show ?thesis by simp
  qed
qed

lemma atomicAdd_loop_thread:
  assumes "tid < step"
  shows "atomicAdd_loop n step base res tid gt (base + j)
         = (if j < n \<and> j mod step = tid then gt (base + j) + res j else gt (base + j))"
    and "a < base \<or> base + n \<le> a \<Longrightarrow> atomicAdd_loop n step base res tid gt a = gt a"
proof -
  have s: "0 < step" using assms by simp
  have eq: "(tid \<le> j \<and> j < n \<and> (j - tid) mod step = 0) = (j < n \<and> j mod step = tid)"
    using stride_member [OF assms, of j] by (cases "j < n") simp_all
  show "atomicAdd_loop n step base res tid gt (base + j)
         = (if j < n \<and> j mod step = tid then gt (base + j) + res j else gt (base + j))"
    by (simp add: atomicAdd_loop_closed [OF s] eq)
  assume "a < base \<or> base + n \<le> a"
  then have "\<not> (base \<le> a \<and> tid \<le> a - base \<and> a - base < n
                 \<and> (a - base - tid) mod step = 0)" by arith
  then show "atomicAdd_loop n step base res tid gt a = gt a"
    unfolding atomicAdd_loop_closed [OF s] by (rule if_not_P)
qed



section \<open>Slots of the shared gradient array\<close>

lemma slot_div_mod:
  fixes tid N i :: nat
  assumes "tid < N"
  shows "(i * N + tid) div N = i" "(i * N + tid) mod N = tid"
  using assms by simp_all

lemma slot_eq:
  fixes a tid N i :: nat
  assumes "tid < N"
  shows "(a = i * N + tid) = (a div N = i \<and> a mod N = tid)"
proof
  assume "a = i * N + tid"
  then show "a div N = i \<and> a mod N = tid" using assms by simp
next
  assume h: "a div N = i \<and> a mod N = tid"
  have "a = a div N * N + a mod N" by simp
  then show "a = i * N + tid" using h by simp
qed

lemma slot_lt:
  fixes a N :: nat
  assumes "0 < N"
  shows "(a < n * N) = (a div N < n)"
  using assms by (simp add: less_mult_imp_div_less div_less_iff_less_mult)

text \<open>The twelve stores of a thread inside the limits.\<close>

lemma twelve_stores:
  fixes sh v :: "nat \<Rightarrow> real"
  assumes "tid < N"
  shows "sh(0 * N + tid := v 0, 1 * N + tid := v 1, 2 * N + tid := v 2, 4 * N + tid := v 4,
            5 * N + tid := v 5, 6 * N + tid := v 6, 8 * N + tid := v 8, 9 * N + tid := v 9,
            10 * N + tid := v 10, 3 * N + tid := v 3, 7 * N + tid := v 7, 11 * N + tid := v 11)
         = (\<lambda>a. if a < 12 * N \<and> a mod N = tid then v (a div N) else sh a)"
proof (rule ext)
  fix a
  have N: "0 < N" using assms by simp
  have e: "(a = i * N + tid) = (a div N = i \<and> a mod N = tid)" for i
    by (rule slot_eq [OF assms])
  have l: "(a < 12 * N) = (a div N < 12)" by (rule slot_lt [OF N])
  have "j < 12 \<Longrightarrow> j = 0 \<or> j = 1 \<or> j = 2 \<or> j = 3 \<or> j = 4 \<or> j = 5 \<or> j = 6 \<or> j = 7
      \<or> j = 8 \<or> j = 9 \<or> j = 10 \<or> j = 11" for j :: nat
    by arith
  from this [of "a div N"]
  have c: "a div N < 12 \<Longrightarrow> a div N = 0 \<or> a div N = 1 \<or> a div N = 2 \<or> a div N = 3
      \<or> a div N = 4 \<or> a div N = 5 \<or> a div N = 6 \<or> a div N = 7 \<or> a div N = 8 \<or> a div N = 9
      \<or> a div N = 10 \<or> a div N = 11" .
  show "(sh(0 * N + tid := v 0, 1 * N + tid := v 1, 2 * N + tid := v 2, 4 * N + tid := v 4,
            5 * N + tid := v 5, 6 * N + tid := v 6, 8 * N + tid := v 8, 9 * N + tid := v 9,
            10 * N + tid := v 10, 3 * N + tid := v 3, 7 * N + tid := v 7, 11 * N + tid := v 11)) a
         = (if a < 12 * N \<and> a mod N = tid then v (a div N) else sh a)"
    unfolding fun_upd_apply e l using c by auto
qed


section \<open>The first part of a round\<close>

lemma grad_thread_shared:
  assumes "t \<in> set (block_threads E)"
  shows "st_sharedData (grad_thread E k t st)
         = (\<lambda>a. if a < 12 * nThreads E \<and> a mod nThreads E = thread_id E t
                then thread_contrib E k t (a div nThreads E) else st_sharedData st a)"
proof (cases "withinLimits E t")
  case True
  from twelve_stores [OF thread_id_lt [OF assms], where v = "thread_contrib E k t"
      and sh = "st_sharedData st"]
  show ?thesis
    using True
    by (simp add: grad_thread_def Let_def thread_contrib_def grad_tfm_point_def
        split: prod.splits)
next
  case False
  then have "thread_contrib E k t i = 0" for i by (simp add: thread_contrib_def)
  then show ?thesis
    using False zero_loop_thread [OF thread_id_lt [OF assms]]
    by (simp add: grad_thread_def Let_def nSharedGrads_def mult.commute cong: if_cong)
qed

lemma grad_thread_other:
  "st_gradPoints (grad_thread E k t st) = st_gradPoints st"
  "st_gradTfms (grad_thread E k t st) = st_gradTfms st"
  by (simp_all add: grad_thread_def Let_def split: prod.splits)

lemma grad_thread_masks:
  "st_gradMasks (grad_thread E k t st)
   = (if withinLimits E t
      then (st_gradMasks st)
             (k * ms1 (e_P E) + valm_of E t :=
                grad_mask (\<lambda>j. e_points E (j * ps1 (e_P E) + valp_of E t))
                  (\<lambda>j. e_gradTfmpoints E (j * ps1 (e_P E) + valp_of E t))
                  (\<lambda>j. e_constTfms E (blockIdx_z E * ts0 (e_P E) + k * ts1 (e_P E) + j)))
      else st_gradMasks st)"
  by (simp add: grad_thread_def Let_def grad_mask_def lessThan_nat_numeral lessThan_Suc
      algebra_simps split: prod.splits)



section \<open>Threads that own what they write\<close>

text \<open>
  Every address has at most one owner among the threads; a thread rewrites the addresses
  it owns, to a value that depends on the buffer only at that address and at addresses
  nobody owns. Then running the threads \<open>0, \<dots>, n - 1\<close> in turn rewrites every address
  owned by one of them from the initial buffer.
\<close>

lemma fold_owned:
  fixes f :: "nat \<Rightarrow> (nat \<Rightarrow> real) \<Rightarrow> nat \<Rightarrow> real"
  assumes thread: "\<And>tid s a. tid < n \<Longrightarrow> f tid s a = (if own a = Some tid then new s a else s a)"
    and dep: "\<And>s s' a. own a \<noteq> None \<Longrightarrow> s a = s' a \<Longrightarrow> (\<And>a'. own a' = None \<Longrightarrow> s a' = s' a')
                \<Longrightarrow> new s a = new s' a"
  shows "fold f [0..<n] s0 a
         = (if \<exists>tid<n. own a = Some tid then new s0 a else s0 a)"
  using thread
proof (induction n arbitrary: a)
  case 0
  then show ?case by simp
next
  case (Suc n)
  have IH: "fold f [0..<n] s0 a' = (if \<exists>tid<n. own a' = Some tid then new s0 a' else s0 a')"
    for a'
    using Suc.prems by (intro Suc.IH) simp
  have step: "fold f [0..<Suc n] s0 a
              = (if own a = Some n then new (fold f [0..<n] s0) a else fold f [0..<n] s0 a)"
    using Suc.prems [of n] by simp
  show ?case
  proof (cases "own a = Some n")
    case True
    have "new (fold f [0..<n] s0) a = new s0 a"
    proof (rule dep)
      show "own a \<noteq> None" using True by simp
      show "fold f [0..<n] s0 a = s0 a" using True by (simp add: IH)
      show "fold f [0..<n] s0 a' = s0 a'" if "own a' = None" for a'
        using that by (simp add: IH)
    qed
    then show ?thesis using True step by auto
  next
    case False
    then have "(\<exists>tid<Suc n. own a = Some tid) = (\<exists>tid<n. own a = Some tid)"
      by (auto simp: less_Suc_eq)
    then show ?thesis using False step IH by simp
  qed
qed

section \<open>A round of the tree reduction\<close>

text \<open>The inner loop of a thread: parameters \<open>lo, \<dots>, hi - 1\<close> of slot \<open>tid\<close>.\<close>

lemma fold_params:
  fixes sh :: "nat \<Rightarrow> real"
  assumes "tid + s < N" "0 < s"
  shows "fold (\<lambda>i sh. sh(i * N + tid := sh (i * N + tid) + sh (i * N + tid + s))) [lo..<hi] sh
         = (\<lambda>a. if a mod N = tid \<and> lo \<le> a div N \<and> a div N < hi then sh a + sh (a + s)
                else sh a)"
proof (induction hi)
  case 0
  then show ?case by simp
next
  case (Suc hi)
  have tid: "tid < N" using assms by simp
  show ?case
  proof (cases "lo \<le> hi")
    case False
    then show ?thesis by auto
  next
    case True
    have r1: "(hi * N + tid) mod N = tid" "(hi * N + tid) div N = hi"
      using tid by simp_all
    have r2: "(hi * N + tid + s) mod N = tid + s"
      using assms by (simp add: add.assoc)
    show ?thesis
    proof (rule ext)
      fix a
      have e: "(a = hi * N + tid) = (a div N = hi \<and> a mod N = tid)"
        by (rule slot_eq [OF tid])
      show "fold (\<lambda>i sh. sh(i * N + tid := sh (i * N + tid) + sh (i * N + tid + s)))
              [lo..<Suc hi] sh a
            = (if a mod N = tid \<and> lo \<le> a div N \<and> a div N < Suc hi then sh a + sh (a + s)
               else sh a)"
        using True assms(2) by (auto simp: Suc r1 r2 e less_Suc_eq)
    qed
  qed
qed


text \<open>The owner of a slot in a round of width \<open>s\<close>.\<close>

lemma reduce_slots_owned:
  fixes sh :: "nat \<Rightarrow> real"
  assumes tid: "tid < N" and s: "0 < s" "s \<le> N div 2"
  shows "reduce_slots N s tid sh a
         = (if (if a < 12 * N \<and> a mod N < s
                then Some (if a div N < 6 then a mod N else a mod N + N div 2) else None)
               = Some tid
            then sh a + sh (a + s) else sh a)"
proof -
  have N: "0 < N" using tid by simp
  have N2: "2 * (N div 2) \<le> N" by simp
  have lt12: "(a < 12 * N) = (a div N < 12)" by (rule slot_lt [OF N])
  consider (first) "tid < s" | (second) "\<not> tid < s" "tid \<ge> N div 2" "tid - N div 2 < s"
    | (idle) "\<not> tid < s" "\<not> (tid \<ge> N div 2 \<and> tid - N div 2 < s)"
    by blast
  then show ?thesis
  proof cases
    case first
    have "tid + s < N" using first s N2 by arith
    from fold_params [OF this s(1), of 0 6 sh]
    have "reduce_slots N s tid sh a
          = (if a mod N = tid \<and> a div N < 6 then sh a + sh (a + s) else sh a)"
      using first by (simp add: reduce_slots_def)
    moreover have "((if a < 12 * N \<and> a mod N < s
                then Some (if a div N < 6 then a mod N else a mod N + N div 2) else None)
               = Some tid) = (a mod N = tid \<and> a div N < 6)"
      using first s unfolding lt12 by auto
    ultimately show ?thesis by simp
  next
    case second
    have h: "i * N + tid - N div 2 = i * N + (tid - N div 2)" for i
      using second by simp
    have "tid - N div 2 + s < N" using second s N2 tid by arith
    from fold_params [OF this s(1), of 6 12 sh]
    have B: "fold (\<lambda>i sh. sh(i * N + tid - N div 2 :=
                      sh (i * N + tid - N div 2) + sh (i * N + tid - N div 2 + s))) [6..<12] sh a
          = (if a mod N = tid - N div 2 \<and> 6 \<le> a div N \<and> a div N < 12
             then sh a + sh (a + s) else sh a)"
      by (simp only: h)
    have A: "reduce_slots N s tid sh
          = fold (\<lambda>i sh. sh(i * N + tid - N div 2 :=
                      sh (i * N + tid - N div 2) + sh (i * N + tid - N div 2 + s))) [6..<12] sh"
      unfolding reduce_slots_def Let_def using second by (simp only: if_False if_True simp_thms)
    have "reduce_slots N s tid sh a
          = (if a mod N = tid - N div 2 \<and> 6 \<le> a div N \<and> a div N < 12
             then sh a + sh (a + s) else sh a)"
      unfolding A by (rule B)
    moreover have "((if a < 12 * N \<and> a mod N < s
                then Some (if a div N < 6 then a mod N else a mod N + N div 2) else None)
               = Some tid) = (a mod N = tid - N div 2 \<and> 6 \<le> a div N \<and> a div N < 12)"
      using second s unfolding lt12 by auto
    ultimately show ?thesis by simp
  next
    case idle
    have "reduce_slots N s tid sh a = sh a"
      unfolding reduce_slots_def Let_def using idle by (simp only: if_False simp_thms)
    moreover have "(if a < 12 * N \<and> a mod N < s
                then Some (if a div N < 6 then a mod N else a mod N + N div 2) else None)
               \<noteq> Some tid"
      using idle s by auto
    ultimately show ?thesis by simp
  qed
qed

text \<open>A whole round on the shared array, the threads taken by thread id.\<close>

lemma reduce_round_slots:
  fixes sh :: "nat \<Rightarrow> real"
  assumes s: "0 < s" "s \<le> N div 2"
  shows "fold (reduce_slots N s) [0..<N] sh a
         = (if a < 12 * N \<and> a mod N < s then sh a + sh (a + s) else sh a)"
proof -
  define own where "own = (\<lambda>a. if a < 12 * N \<and> a mod N < s
                then Some (if a div N < 6 then a mod N else a mod N + N div 2) else None)"
  have N2: "2 * (N div 2) \<le> N" by simp
  have "fold (reduce_slots N s) [0..<N] sh a
        = (if \<exists>tid<N. own a = Some tid then (\<lambda>sh a. sh a + sh (a + s)) sh a else sh a)"
  proof (rule fold_owned)
    fix tid sh' a'
    assume "tid < N"
    then show "reduce_slots N s tid sh' a'
               = (if own a' = Some tid then sh' a' + sh' (a' + s) else sh' a')"
      unfolding own_def by (rule reduce_slots_owned [OF _ s])
  next
    fix sh1 sh2 :: "nat \<Rightarrow> real" and a'
    assume o: "own a' \<noteq> None" and e: "sh1 a' = sh2 a'"
      and u: "\<And>a''. own a'' = None \<Longrightarrow> sh1 a'' = sh2 a''"
    have a': "a' < 12 * N" "a' mod N < s" using o by (auto simp: own_def split: if_splits)
    have "(a' + s) mod N = a' mod N + s"
    proof -
      have "a' mod N + s < N" using a' s N2 by arith
      then have "(a' mod N + s) mod N = a' mod N + s" by simp
      then show ?thesis by (simp add: mod_add_left_eq)
    qed
    then have "own (a' + s) = None" by (simp add: own_def)
    then show "sh1 a' + sh1 (a' + s) = sh2 a' + sh2 (a' + s)" using e u by simp
  qed
  moreover have "(\<exists>tid<N. own a = Some tid) = (a < 12 * N \<and> a mod N < s)"
  proof -
    have "a mod N + N div 2 < N" if "a mod N < s" using that s N2 by arith
    moreover have "a mod N < N" if "a mod N < s" using that s N2 by arith
    ultimately show ?thesis by (auto simp: own_def)
  qed
  ultimately show ?thesis by simp
qed



lemma fold_shared_only:
  "fold (\<lambda>x st. st\<lparr>st_sharedData := h x (st_sharedData st)\<rparr>) xs st
   = st\<lparr>st_sharedData := fold h xs (st_sharedData st)\<rparr>"
  by (induction xs arbitrary: st) simp_all

lemma reduce_round:
  "fold (reduce_thread E s) (block_threads E) st
   = st\<lparr>st_sharedData := fold (reduce_slots (nThreads E) s) [0..<nThreads E] (st_sharedData st)\<rparr>"
proof -
  have "fold (reduce_thread E s) (block_threads E) st
        = fold (\<lambda>tid st. st\<lparr>st_sharedData := reduce_slots (nThreads E) s tid (st_sharedData st)\<rparr>)
            [0..<nThreads E] st"
    by (rule fold_by_thread_id) (simp add: reduce_thread_def fun_eq_iff)
  then show ?thesis by (simp add: fold_shared_only)
qed

text \<open>A round of width \<open>s\<close> folds the sums over \<open>2 s\<close> slots into sums over \<open>s\<close> slots.\<close>

lemma halve_sum:
  fixes f :: "nat \<Rightarrow> real"
  shows "(\<Sum>t < s. f t + f (t + s)) = (\<Sum>t\<in>{..<2 * s}. f t)"
proof -
  have "(\<Sum>t < s. f (t + s)) = sum f {s..<2 * s}"
    using sum.shift_bounds_nat_ivl [of f 0 s s] by (simp add: lessThan_atLeast0 mult_2)
  moreover have "sum f {0..<s} + sum f {s..<2 * s} = sum f {0..<2 * s}"
    by (rule sum.atLeastLessThan_concat) simp_all
  ultimately show ?thesis by (simp add: sum.distrib lessThan_atLeast0)
qed

lemma reduce_round_sum:
  assumes s: "0 < s" "s \<le> nThreads E div 2" and i: "i < 12"
  shows "(\<Sum>t < s. st_sharedData (fold (reduce_thread E s) (block_threads E) st)
                    (i * nThreads E + t))
         = (\<Sum>t\<in>{..<2 * s}. st_sharedData st (i * nThreads E + t))"
proof -
  define N where "N = nThreads E"
  define sh where "sh = st_sharedData st"
  have N2: "2 * (N div 2) \<le> N" by simp
  have "fold (reduce_slots N s) [0..<N] sh (i * N + t) = sh (i * N + t) + sh (i * N + t + s)"
    if "t < s" for t
  proof -
    have t: "t < N" using that s N2 unfolding N_def by arith
    have "i * N + t < 12 * N"
    proof -
      have "i * N + t < (i + 1) * N" using t by simp
      also have "\<dots> \<le> 12 * N" using i by (intro mult_le_mono1) simp
      finally show ?thesis .
    qed
    moreover have "(i * N + t) mod N = t" using t by simp
    ultimately show ?thesis
      using reduce_round_slots [OF s [folded N_def], of sh "i * N + t"] that by simp
  qed
  then have "(\<Sum>t < s. fold (reduce_slots N s) [0..<N] sh (i * N + t))
             = (\<Sum>t < s. sh (i * N + t) + sh (i * N + (t + s)))"
    by (intro sum.cong refl) (simp add: add.assoc)
  also have "\<dots> = (\<Sum>t\<in>{..<2 * s}. sh (i * N + t))"
    by (rule halve_sum)
  finally show ?thesis
    by (simp add: reduce_round N_def sh_def)
qed

lemma reduce_round_frame:
  assumes s: "0 < s" "s \<le> nThreads E div 2" and a: "12 * nThreads E \<le> a"
  shows "st_sharedData (fold (reduce_thread E s) (block_threads E) st) a = st_sharedData st a"
  using reduce_round_slots [OF s, of "st_sharedData st" a] a by (simp add: reduce_round)

lemma reduce_round_other:
  "st_gradPoints (fold (reduce_thread E s) (block_threads E) st) = st_gradPoints st"
  "st_gradMasks (fold (reduce_thread E s) (block_threads E) st) = st_gradMasks st"
  "st_gradTfms (fold (reduce_thread E s) (block_threads E) st) = st_gradTfms st"
  "st_regs (fold (reduce_thread E s) (block_threads E) st) = st_regs st"
  by (simp_all add: reduce_round)

section \<open>The loop of the tree reduction\<close>

lemma reduce_loop_other:
  "st_gradPoints (reduce_loop E s st) = st_gradPoints st
   \<and> st_gradMasks (reduce_loop E s st) = st_gradMasks st
   \<and> st_gradTfms (reduce_loop E s st) = st_gradTfms st
   \<and> st_regs (reduce_loop E s st) = st_regs st"
proof (induction E s st rule: reduce_loop.induct)
  case (1 E s st)
  show ?case
  proof (cases "32 \<le> s")
    case True
    then show ?thesis
      using "1.IH" by (subst (1 2 3 4) reduce_loop.simps) (simp add: reduce_round_other)
  next
    case False
    then show ?thesis by (subst (1 2 3 4) reduce_loop.simps) simp
  qed
qed

lemma reduce_loop_frame:
  "s \<le> nThreads E div 2 \<Longrightarrow> 12 * nThreads E \<le> a
   \<Longrightarrow> st_sharedData (reduce_loop E s st) a = st_sharedData st a"
proof (induction E s st rule: reduce_loop.induct)
  case (1 E s st)
  show ?case
  proof (cases "32 \<le> s")
    case True
    have "st_sharedData (reduce_loop E s st) a
          = st_sharedData (reduce_loop E (s div 2)
                             (fold (reduce_thread E s) (block_threads E) st)) a"
      using True by (subst reduce_loop.simps) simp
    also have "\<dots> = st_sharedData (fold (reduce_thread E s) (block_threads E) st) a"
      using True "1.prems" by (intro "1.IH") simp_all
    also have "\<dots> = st_sharedData st a"
      using True "1.prems" by (intro reduce_round_frame) simp_all
    finally show ?thesis .
  next
    case False
    then show ?thesis by (subst reduce_loop.simps) simp
  qed
qed

lemma reduce_loop_sum:
  assumes "s = 2 ^ (4 + d)" "2 * s \<le> nThreads E" "i < 12"
  shows "(\<Sum>t<32. st_sharedData (reduce_loop E s st) (i * nThreads E + t))
         = (\<Sum>t\<in>{..<2 * s}. st_sharedData st (i * nThreads E + t))"
  using assms
proof (induction d arbitrary: s st)
  case 0
  then have "s = 16" by simp
  then show ?case by (subst reduce_loop.simps) simp
next
  case (Suc d)
  have s: "s = 2 * 2 ^ (4 + d)" using Suc.prems(1) by (simp add: power_add)
  have "(16::nat) \<le> 2 ^ (4 + d)"
    using power_increasing [of 4 "4 + d" "2::nat"] by simp
  then have ge: "32 \<le> s" using s by simp
  have half: "s div 2 = 2 ^ (4 + d)" using s by simp
  have le: "s \<le> nThreads E div 2" using Suc.prems(2) by simp
  have "(\<Sum>t<32. st_sharedData (reduce_loop E s st) (i * nThreads E + t))
        = (\<Sum>t<32. st_sharedData (reduce_loop E (s div 2)
                        (fold (reduce_thread E s) (block_threads E) st)) (i * nThreads E + t))"
    using ge by (subst reduce_loop.simps) simp
  also have "\<dots> = (\<Sum>t\<in>{..<2 * (s div 2)}.
                       st_sharedData (fold (reduce_thread E s) (block_threads E) st)
                         (i * nThreads E + t))"
    using half Suc.prems s by (intro Suc.IH) simp_all
  also have "\<dots> = (\<Sum>t < s. st_sharedData (fold (reduce_thread E s) (block_threads E) st)
                              (i * nThreads E + t))"
    using s by simp
  also have "\<dots> = (\<Sum>t\<in>{..<2 * s}. st_sharedData st (i * nThreads E + t))"
    using ge le Suc.prems(3) by (intro reduce_round_sum) simp_all
  finally show ?case .
qed



section \<open>The warp-level finish\<close>

lemma warp_finish_other:
  "st_gradPoints (warp_finish E k st) = st_gradPoints st
   \<and> st_gradMasks (warp_finish E k st) = st_gradMasks st
   \<and> st_gradTfms (warp_finish E k st) = st_gradTfms st
   \<and> st_regs (warp_finish E k st) = st_regs st"
proof -
  have "st_gradPoints (fold (\<lambda>i st.
             let sum = warpReduceSum (\<lambda>lane. st_sharedData st (i * nThreads E + lane)) 0
             in st\<lparr>st_sharedData := (st_sharedData st)(nSharedGrads E + (k * 12 + i) := sum)\<rparr>)
          xs st) = st_gradPoints st
   \<and> st_gradMasks (fold (\<lambda>i st.
             let sum = warpReduceSum (\<lambda>lane. st_sharedData st (i * nThreads E + lane)) 0
             in st\<lparr>st_sharedData := (st_sharedData st)(nSharedGrads E + (k * 12 + i) := sum)\<rparr>)
          xs st) = st_gradMasks st
   \<and> st_gradTfms (fold (\<lambda>i st.
             let sum = warpReduceSum (\<lambda>lane. st_sharedData st (i * nThreads E + lane)) 0
             in st\<lparr>st_sharedData := (st_sharedData st)(nSharedGrads E + (k * 12 + i) := sum)\<rparr>)
          xs st) = st_gradTfms st
   \<and> st_regs (fold (\<lambda>i st.
             let sum = warpReduceSum (\<lambda>lane. st_sharedData st (i * nThreads E + lane)) 0
             in st\<lparr>st_sharedData := (st_sharedData st)(nSharedGrads E + (k * 12 + i) := sum)\<rparr>)
          xs st) = st_regs st" for xs
    by (induction xs arbitrary: st) (simp_all add: Let_def)
  then show ?thesis unfolding warp_finish_def by blast
qed

lemma warp_finish_shared:
  assumes N: "32 \<le> nThreads E"
  shows "st_sharedData (warp_finish E k st) a
         = (if nSharedGrads E + k * 12 \<le> a \<and> a < nSharedGrads E + k * 12 + 12
            then \<Sum>lane<32. st_sharedData st ((a - (nSharedGrads E + k * 12)) * nThreads E + lane)
            else st_sharedData st a)"
proof -
  define W where "W = (\<lambda>i (st :: kstate).
             let sum = warpReduceSum (\<lambda>lane. st_sharedData st (i * nThreads E + lane)) 0
             in st\<lparr>st_sharedData := (st_sharedData st)(nSharedGrads E + (k * 12 + i) := sum)\<rparr>)"
  have "hi \<le> 12 \<Longrightarrow> st_sharedData (fold W [0..<hi] st) a
         = (if nSharedGrads E + k * 12 \<le> a \<and> a < nSharedGrads E + k * 12 + hi
            then \<Sum>lane<32. st_sharedData st ((a - (nSharedGrads E + k * 12)) * nThreads E + lane)
            else st_sharedData st a)" for hi a
  proof (induction hi arbitrary: a)
    case 0
    then show ?case by simp
  next
    case (Suc hi)
    have IH: "st_sharedData (fold W [0..<hi] st) a'
         = (if nSharedGrads E + k * 12 \<le> a' \<and> a' < nSharedGrads E + k * 12 + hi
            then \<Sum>lane<32. st_sharedData st ((a' - (nSharedGrads E + k * 12)) * nThreads E + lane)
            else st_sharedData st a')" for a'
      using Suc.prems by (intro Suc.IH) simp
    have below: "hi * nThreads E + lane < nSharedGrads E" if "lane < 32" for lane
    proof -
      have "hi * nThreads E + lane < (hi + 1) * nThreads E" using that N by simp
      also have "\<dots> \<le> 12 * nThreads E" using Suc.prems by (intro mult_le_mono1) simp
      finally show ?thesis by (simp add: nSharedGrads_def mult.commute)
    qed
    have rd: "(\<Sum>lane<32. st_sharedData (fold W [0..<hi] st) (hi * nThreads E + lane))
              = (\<Sum>lane<32. st_sharedData st (hi * nThreads E + lane))"
    proof (rule sum.cong [OF refl])
      fix lane :: nat assume "lane \<in> {..<32}"
      then have "hi * nThreads E + lane < nSharedGrads E" using below by simp
      then show "st_sharedData (fold W [0..<hi] st) (hi * nThreads E + lane)
                 = st_sharedData st (hi * nThreads E + lane)"
        by (simp add: IH)
    qed
    have step: "st_sharedData (fold W [0..<Suc hi] st)
                = (st_sharedData (fold W [0..<hi] st))
                    (nSharedGrads E + (k * 12 + hi) :=
                       \<Sum>lane<32. st_sharedData (fold W [0..<hi] st) (hi * nThreads E + lane))"
      by (simp add: W_def Let_def warpReduceSum_total)
    show ?case
      unfolding step rd by (auto simp: IH)
  qed
  from this [of 12 a] show ?thesis by (simp add: warp_finish_def W_def)
qed



section \<open>A round of the loop over the transforms\<close>

lemma slot_below:
  fixes i tid N :: nat
  assumes "i < 12" "tid < N"
  shows "i * N + tid < 12 * N"
proof -
  have "i * N + tid < (i + 1) * N" using assms by simp
  also have "\<dots> \<le> 12 * N" using assms by (intro mult_le_mono1) simp
  finally show ?thesis .
qed

lemma grads_shared_slot:
  assumes t: "t \<in> set (block_threads E)" and i: "i < 12"
  shows "st_sharedData (fold (grad_thread E k) (block_threads E) st)
           (i * nThreads E + thread_id E t) = thread_contrib E k t i"
proof (rule fold_hit [where x = t and pr = "\<lambda>st. st_sharedData st (i * nThreads E + thread_id E t)",
      OF t])
  fix s
  show "st_sharedData (grad_thread E k t s) (i * nThreads E + thread_id E t)
        = thread_contrib E k t i"
    using slot_below [OF i thread_id_lt [OF t]] thread_id_lt [OF t]
    by (simp add: grad_thread_shared [OF t])
next
  fix t' s
  assume t': "t' \<in> set (block_threads E)" and ne: "t' \<noteq> t"
  have "thread_id E t \<noteq> thread_id E t'" using thread_id_inj [OF t t'] ne by auto
  then show "st_sharedData (grad_thread E k t' s) (i * nThreads E + thread_id E t)
             = st_sharedData s (i * nThreads E + thread_id E t)"
    using thread_id_lt [OF t] by (simp add: grad_thread_shared [OF t'])
qed

lemma grads_shared_frame:
  assumes "12 * nThreads E \<le> a"
  shows "st_sharedData (fold (grad_thread E k) (block_threads E) st) a = st_sharedData st a"
  using assms
  by (intro fold_frame [where pr = "\<lambda>st. st_sharedData st a"]) (simp add: grad_thread_shared)

lemma grads_other:
  "st_gradPoints (fold (grad_thread E k) (block_threads E) st) = st_gradPoints st"
  "st_gradTfms (fold (grad_thread E k) (block_threads E) st) = st_gradTfms st"
  by (intro fold_frame; simp add: grad_thread_other)+

lemma grads_sum:
  assumes i: "i < 12"
  shows "(\<Sum>tid<nThreads E. st_sharedData (fold (grad_thread E k) (block_threads E) st)
                               (i * nThreads E + tid))
         = (\<Sum>t\<leftarrow>block_threads E. thread_contrib E k t i)"
proof -
  have "(\<Sum>tid<nThreads E. st_sharedData (fold (grad_thread E k) (block_threads E) st)
                               (i * nThreads E + tid))
        = (\<Sum>t\<leftarrow>block_threads E. st_sharedData (fold (grad_thread E k) (block_threads E) st)
                               (i * nThreads E + thread_id E t))"
    by (rule sum_threads)
  also have "\<dots> = (\<Sum>t\<leftarrow>block_threads E. thread_contrib E k t i)"
    by (intro arg_cong [where f = sum_list] map_cong refl grads_shared_slot i)
  finally show ?thesis .
qed

lemma transform_round_result:
  assumes N: "nThreads E = 2 ^ (5 + d)" and i: "i < 12"
  shows "st_sharedData (transform_round E k st) (nSharedGrads E + (k * 12 + i))
         = (\<Sum>t\<leftarrow>block_threads E. thread_contrib E k t i)"
proof -
  define st1 where "st1 = fold (grad_thread E k) (block_threads E) st"
  define st2 where "st2 = reduce_loop E (nThreads E div 2) st1"
  have "(16::nat) \<le> 2 ^ (4 + d)"
    using power_increasing [of 4 "4 + d" "2::nat"] by simp
  moreover have N': "nThreads E = 2 * 2 ^ (4 + d)" using N by (simp add: power_add)
  ultimately have ge: "32 \<le> nThreads E" by simp
  have half: "nThreads E div 2 = 2 ^ (4 + d)" using N' by simp
  have "st_sharedData (transform_round E k st) (nSharedGrads E + (k * 12 + i))
        = (\<Sum>lane<32. st_sharedData st2 (i * nThreads E + lane))"
    unfolding transform_round_def st1_def [symmetric] st2_def [symmetric]
    using i by (simp add: warp_finish_shared [OF ge] add.assoc)
  also have "\<dots> = (\<Sum>t\<in>{..<2 * (nThreads E div 2)}. st_sharedData st1 (i * nThreads E + t))"
    unfolding st2_def using half N' i by (intro reduce_loop_sum [where d = d]) simp_all
  also have "\<dots> = (\<Sum>tid<nThreads E. st_sharedData st1 (i * nThreads E + tid))"
    using N' half by simp
  also have "\<dots> = (\<Sum>t\<leftarrow>block_threads E. thread_contrib E k t i)"
    unfolding st1_def by (rule grads_sum [OF i])
  finally show ?thesis .
qed

lemma transform_round_frame:
  assumes "12 * nThreads E \<le> a"
    and "\<not> (nSharedGrads E + k * 12 \<le> a \<and> a < nSharedGrads E + k * 12 + 12)"
    and "32 \<le> nThreads E"
  shows "st_sharedData (transform_round E k st) a = st_sharedData st a"
proof -
  have "st_sharedData (transform_round E k st) a
        = st_sharedData (reduce_loop E (nThreads E div 2)
                           (fold (grad_thread E k) (block_threads E) st)) a"
    unfolding transform_round_def warp_finish_shared [OF assms(3)]
    by (rule if_not_P [OF assms(2)])
  also have "\<dots> = st_sharedData st a"
    using assms(1) by (simp add: reduce_loop_frame grads_shared_frame)
  finally show ?thesis .
qed

lemma transform_round_other:
  "st_gradPoints (transform_round E k st) = st_gradPoints st"
  "st_gradTfms (transform_round E k st) = st_gradTfms st"
  by (simp_all add: transform_round_def warp_finish_other reduce_loop_other grads_other)

lemma rounds_other:
  "st_gradPoints (fold (transform_round E) ks st) = st_gradPoints st"
  "st_gradTfms (fold (transform_round E) ks st) = st_gradTfms st"
  by (intro fold_frame; simp add: transform_round_other)+

lemma rounds_result:
  assumes N: "nThreads E = 2 ^ (5 + d)" and i: "i < 12" and k: "k < K"
  shows "st_sharedData (fold (transform_round E) [0..<K] st) (nSharedGrads E + (k * 12 + i))
         = (\<Sum>t\<leftarrow>block_threads E. thread_contrib E k t i)"
proof (rule fold_hit [where x = k
      and pr = "\<lambda>st. st_sharedData st (nSharedGrads E + (k * 12 + i))"])
  show "k \<in> set [0..<K]" using k by simp
next
  fix s show "st_sharedData (transform_round E k s) (nSharedGrads E + (k * 12 + i))
              = (\<Sum>t\<leftarrow>block_threads E. thread_contrib E k t i)"
    by (rule transform_round_result [OF N i])
next
  fix k' s assume "k' \<in> set [0..<K]" and ne: "k' \<noteq> k"
  have "(16::nat) \<le> 2 ^ (4 + d)"
    using power_increasing [of 4 "4 + d" "2::nat"] by simp
  moreover have "nThreads E = 2 * 2 ^ (4 + d)" using N by (simp add: power_add)
  ultimately have ge: "32 \<le> nThreads E" by simp
  have "\<not> (k' * 12 \<le> k * 12 + i \<and> k * 12 + i < k' * 12 + 12)"
    using ne i by arith
  then show "st_sharedData (transform_round E k' s) (nSharedGrads E + (k * 12 + i))
             = st_sharedData s (nSharedGrads E + (k * 12 + i))"
    using ge by (intro transform_round_frame) (simp_all add: nSharedGrads_def)
qed



section \<open>Accumulating threads\<close>

lemma fold_add:
  fixes pr :: "'s \<Rightarrow> real"
  assumes "\<And>x s. x \<in> set xs \<Longrightarrow> I s \<Longrightarrow> I (f x s) \<and> pr (f x s) = pr s + d x"
    and "I s"
  shows "pr (fold f xs s) = pr s + sum_list (map d xs) \<and> I (fold f xs s)"
  using assms
proof (induction xs arbitrary: s)
  case Nil
  then show ?case by simp
next
  case (Cons x xs)
  have 1: "I (f x s)" "pr (f x s) = pr s + d x"
    using Cons.prems(1) [of x s] Cons.prems(2) by simp_all
  have "pr (fold f xs (f x s)) = pr (f x s) + sum_list (map d xs) \<and> I (fold f xs (f x s))"
    using Cons.prems(1) 1(1) by (intro Cons.IH) simp_all
  then show ?case using 1 by simp
qed

section \<open>After the last barrier\<close>

lemma init_thread_other:
  "st_gradPoints (init_thread E t st) = st_gradPoints st"
  "st_gradMasks (init_thread E t st) = st_gradMasks st"
  "st_gradTfms (init_thread E t st) = st_gradTfms st"
  "st_sharedData (init_thread E t st) = st_sharedData st"
  by (simp_all add: init_thread_def Let_def)

lemma final_thread_other:
  "st_gradMasks (final_thread E t st) = st_gradMasks st"
  "st_sharedData (final_thread E t st) = st_sharedData st"
  "st_regs (final_thread E t st) = st_regs st"
  by (simp_all add: final_thread_def Let_def split: prod.splits)

lemma final_thread_tfms:
  "st_gradTfms (final_thread E t st)
   = atomicAdd_loop (nSE3 (e_P E) * 12) (nThreads E) (blockIdx_z E * ts0 (e_P E))
       (\<lambda>i. st_sharedData st (nSharedGrads E + i)) (thread_id E t) (st_gradTfms st)"
  by (simp add: final_thread_def Let_def split: prod.splits)

lemma sum_one_thread:
  fixes c :: real
  assumes "m < nThreads E"
  shows "(\<Sum>t\<leftarrow>block_threads E. if m = thread_id E t then c else 0) = c"
proof -
  have "(\<Sum>t\<leftarrow>block_threads E. if m = thread_id E t then c else 0)
        = (\<Sum>tid<nThreads E. if m = tid then c else 0)"
    by (rule sum_threads [symmetric])
  also have "\<dots> = c" using assms by simp
  finally show ?thesis .
qed

lemma final_tfms:
  assumes j: "j < nSE3 (e_P E) * 12" and N: "0 < nThreads E"
  shows "st_gradTfms (fold (final_thread E) (block_threads E) st)
           (blockIdx_z E * ts0 (e_P E) + j)
         = st_gradTfms st (blockIdx_z E * ts0 (e_P E) + j)
           + st_sharedData st (nSharedGrads E + j)"
proof -
  define sh0 where "sh0 = st_sharedData st"
  define base where "base = blockIdx_z E * ts0 (e_P E)"
  have "st_gradTfms (fold (final_thread E) (block_threads E) st) (base + j)
        = st_gradTfms st (base + j)
          + (\<Sum>t\<leftarrow>block_threads E. if j mod nThreads E = thread_id E t
                                      then sh0 (nSharedGrads E + j) else 0)
        \<and> st_sharedData (fold (final_thread E) (block_threads E) st) = sh0"
  proof (rule fold_add [where I = "\<lambda>s :: kstate. st_sharedData s = sh0"
        and pr = "\<lambda>s. st_gradTfms s (base + j)"])
    show "st_sharedData st = sh0" by (simp add: sh0_def)
  next
    fix t and s :: kstate
    assume t: "t \<in> set (block_threads E)" and s: "st_sharedData s = sh0"
    show "st_sharedData (final_thread E t s) = sh0
          \<and> st_gradTfms (final_thread E t s) (base + j)
            = st_gradTfms s (base + j)
              + (if j mod nThreads E = thread_id E t then sh0 (nSharedGrads E + j) else 0)"
      using j s atomicAdd_loop_thread(1) [OF thread_id_lt [OF t]]
      by (simp add: final_thread_other final_thread_tfms base_def)
  qed
  moreover have "j mod nThreads E < nThreads E" using N by simp
  ultimately show ?thesis
    by (simp add: sum_one_thread base_def sh0_def)
qed

lemma final_tfms_frame:
  assumes "a < blockIdx_z E * ts0 (e_P E) \<or> blockIdx_z E * ts0 (e_P E) + nSE3 (e_P E) * 12 \<le> a"
  shows "st_gradTfms (fold (final_thread E) (block_threads E) st) a = st_gradTfms st a"
proof (rule fold_frame [where pr = "\<lambda>s. st_gradTfms s a"])
  fix t s assume t: "t \<in> set (block_threads E)"
  show "st_gradTfms (final_thread E t s) a = st_gradTfms s a"
    using atomicAdd_loop_thread(2) [OF thread_id_lt [OF t] assms]
    by (simp add: final_thread_tfms)
qed

section \<open>A block's share of the transform gradient\<close>

lemma block_tfms:
  assumes N: "nThreads E = 2 ^ (5 + d)" and k: "k < nSE3 (e_P E)" and i: "i < 12"
  shows "st_gradTfms (computeGradients_block E st)
           (blockIdx_z E * ts0 (e_P E) + (k * 12 + i))
         = st_gradTfms st (blockIdx_z E * ts0 (e_P E) + (k * 12 + i))
           + (\<Sum>t\<leftarrow>block_threads E. thread_contrib E k t i)"
proof -
  define st0 where "st0 = fold (init_thread E) (block_threads E) st"
  define st1 where "st1 = fold (transform_round E) [0..<nSE3 (e_P E)] st0"
  have pos: "0 < nThreads E" using N by simp
  have j: "k * 12 + i < nSE3 (e_P E) * 12" using k i by arith
  have "st_gradTfms st0 = st_gradTfms st"
    unfolding st0_def by (intro fold_frame) (simp add: init_thread_other)
  then have g: "st_gradTfms st1 = st_gradTfms st"
    unfolding st1_def by (simp add: rounds_other)
  have r: "st_sharedData st1 (nSharedGrads E + (k * 12 + i))
           = (\<Sum>t\<leftarrow>block_threads E. thread_contrib E k t i)"
    unfolding st1_def by (rule rounds_result [OF N i k])
  show ?thesis
    unfolding computeGradients_block_def st0_def [symmetric] st1_def [symmetric]
    by (simp add: final_tfms [OF j pos] g r)
qed

lemma block_tfms_frame:
  assumes "a < blockIdx_z E * ts0 (e_P E) \<or> blockIdx_z E * ts0 (e_P E) + nSE3 (e_P E) * 12 \<le> a"
  shows "st_gradTfms (computeGradients_block E st) a = st_gradTfms st a"
proof -
  have "st_gradTfms (fold (init_thread E) (block_threads E) st) = st_gradTfms st"
    by (intro fold_frame) (simp add: init_thread_other)
  then show ?thesis
    unfolding computeGradients_block_def
    by (simp add: final_tfms_frame [OF assms] rounds_other)
qed



section \<open>Sums over blocks and threads\<close>

lemma fold3_add:
  fixes pr :: "'s \<Rightarrow> real"
  assumes "\<And>x y z s. x \<in> set xs \<Longrightarrow> y \<in> set ys \<Longrightarrow> z \<in> set zs
             \<Longrightarrow> pr (f x y z s) = pr s + d x y z"
  shows "pr (fold (\<lambda>x. fold (\<lambda>y. fold (\<lambda>z. f x y z) zs) ys) xs s)
         = pr s + (\<Sum>x\<leftarrow>xs. \<Sum>y\<leftarrow>ys. \<Sum>z\<leftarrow>zs. d x y z)"
proof -
  have 1: "pr (fold (\<lambda>z. f x y z) zs s) = pr s + (\<Sum>z\<leftarrow>zs. d x y z)"
    if "x \<in> set xs" "y \<in> set ys" for x y s
    using fold_add [where I = "\<lambda>s. True" and f = "\<lambda>z. f x y z" and pr = pr
        and d = "\<lambda>z. d x y z" and xs = zs and s = s] assms [OF that] by simp
  have 2: "pr (fold (\<lambda>y. fold (\<lambda>z. f x y z) zs) ys s) = pr s + (\<Sum>y\<leftarrow>ys. \<Sum>z\<leftarrow>zs. d x y z)"
    if "x \<in> set xs" for x s
    using fold_add [where I = "\<lambda>s. True" and f = "\<lambda>y. fold (\<lambda>z. f x y z) zs" and pr = pr
        and d = "\<lambda>y. \<Sum>z\<leftarrow>zs. d x y z" and xs = ys and s = s] 1 [OF that] by simp
  show ?thesis
    using fold_add [where I = "\<lambda>s. True" and f = "\<lambda>x. fold (\<lambda>y. fold (\<lambda>z. f x y z) zs) ys"
        and pr = pr and d = "\<lambda>x. \<Sum>y\<leftarrow>ys. \<Sum>z\<leftarrow>zs. d x y z" and xs = xs and s = s] 2
    by simp
qed

lemma sum_list_concat_map:
  fixes h :: "'a \<Rightarrow> real"
  shows "(\<Sum>x\<leftarrow>concat xss. h x) = (\<Sum>xs\<leftarrow>xss. \<Sum>x\<leftarrow>xs. h x)"
  by (induction xss) simp_all

lemma sum_block_threads:
  fixes h :: "nat \<times> nat \<Rightarrow> real"
  shows "(\<Sum>t\<leftarrow>block_threads E. h t) = (\<Sum>ty<blockDim_y E. \<Sum>tx<blockDim_x E. h (tx, ty))"
  by (simp add: block_threads_def sum_list_concat_map comp_def interv_sum_list_conv_sum_set_nat
      lessThan_atLeast0)

lemma sum_blocks:
  fixes g :: "nat \<Rightarrow> real"
  shows "(\<Sum>b<n. \<Sum>t<d. g (b * d + t)) = (\<Sum>x<n * d. g x)"
proof -
  have "(\<Sum>t<d. g (b * d + t)) = sum g {b * d..<b * d + d}" for b
    using sum.shift_bounds_nat_ivl [of g 0 "b * d" d]
    by (simp add: lessThan_atLeast0 add.commute)
  then show ?thesis by (simp add: sum.nat_group)
qed

lemma sum_cover:
  fixes F :: "nat \<Rightarrow> real"
  assumes "C \<le> n"
  shows "(\<Sum>x<n. if x < C then F x else 0) = (\<Sum>x<C. F x)"
proof -
  have "(\<Sum>x<n. if x < C then F x else 0) = (\<Sum>x\<in>{..<n} \<inter> {x. x < C}. F x)"
    by (simp add: sum.inter_restrict)
  moreover have "{..<n} \<inter> {x. x < C} = {..<C}" using assms by auto
  ultimately show ?thesis by simp
qed

text \<open>The threads of all blocks of a batch cover the cells of the batch once.\<close>

lemma sum_grid:
  fixes F :: "nat \<Rightarrow> nat \<Rightarrow> real"
  assumes "C \<le> gx * dx" "R \<le> gy * dy"
  shows "(\<Sum>by<gy. \<Sum>bx<gx. \<Sum>ty<dy. \<Sum>tx<dx.
            if bx * dx + tx < C \<and> by * dy + ty < R then F (by * dy + ty) (bx * dx + tx) else 0)
         = (\<Sum>r<R. \<Sum>c<C. F r c)"
proof -
  define G where "G = (\<lambda>r c. if c < C \<and> r < R then F r c else 0)"
  have "(\<Sum>by<gy. \<Sum>bx<gx. \<Sum>ty<dy. \<Sum>tx<dx.
            if bx * dx + tx < C \<and> by * dy + ty < R then F (by * dy + ty) (bx * dx + tx) else 0)
        = (\<Sum>by<gy. \<Sum>bx<gx. \<Sum>ty<dy. \<Sum>tx<dx. G (by * dy + ty) (bx * dx + tx))"
    by (simp add: G_def)
  also have "\<dots> = (\<Sum>by<gy. \<Sum>ty<dy. \<Sum>bx<gx. \<Sum>tx<dx. G (by * dy + ty) (bx * dx + tx))"
    by (intro sum.cong refl sum.swap)
  also have "\<dots> = (\<Sum>by<gy. \<Sum>ty<dy. \<Sum>c<gx * dx. G (by * dy + ty) c)"
    by (simp add: sum_blocks)
  also have "\<dots> = (\<Sum>r<gy * dy. \<Sum>c<gx * dx. G r c)"
    by (rule sum_blocks [where g = "\<lambda>r. \<Sum>c<gx * dx. G r c"])
  also have "\<dots> = (\<Sum>r<gy * dy. if r < R then \<Sum>c<C. F r c else 0)"
  proof (intro sum.cong refl)
    fix r
    have "(\<Sum>c<gx * dx. G r c) = (\<Sum>c<gx * dx. if c < C then (if r < R then F r c else 0) else 0)"
      by (intro sum.cong refl) (simp add: G_def)
    also have "\<dots> = (\<Sum>c<C. if r < R then F r c else 0)"
      by (rule sum_cover [OF assms(1)])
    finally show "(\<Sum>c<gx * dx. G r c) = (if r < R then \<Sum>c<C. F r c else 0)" by simp
  qed
  also have "\<dots> = (\<Sum>r<R. \<Sum>c<C. F r c)"
    by (rule sum_cover [OF assms(2)])
  finally show ?thesis .
qed



section \<open>The transform gradient of a launch\<close>

lemma sum_list_single:
  fixes X :: "nat \<Rightarrow> real"
  assumes "b < n"
  shows "(\<Sum>z\<leftarrow>[0..<n]. if z = b then X z else 0) = X b"
proof -
  have "(\<Sum>z\<leftarrow>[0..<n]. if z = b then X z else 0) = (\<Sum>z\<in>{0..<n}. if z = b then X z else 0)"
    by (simp add: interv_sum_list_conv_sum_set_nat)
  also have "\<dots> = X b" using assms by (simp add: sum.delta)
  finally show ?thesis .
qed

lemma thread_contrib_cell:
  assumes v: "valid_input B K R C ps ms ts n"
  shows "thread_contrib \<lparr>e_P = kparams_of R C K ps ms ts, e_points = points, e_masks = masks,
                      e_gradTfmpoints = gOut, e_constTfms = cT,
                      blockDim_x = dx, blockDim_y = dy,
                      blockIdx_x = bx, blockIdx_y = by, blockIdx_z = b\<rparr> k (tx, ty) i
         = (if bx * dx + tx < C \<and> by * dy + ty < R
            then grad_tfm_point (at4 masks K R C b k (by * dy + ty) (bx * dx + tx))
                   (\<lambda>j. at4 points 3 R C b j (by * dy + ty) (bx * dx + tx))
                   (\<lambda>j. at4 gOut 3 R C b j (by * dy + ty) (bx * dx + tx)) i
            else 0)"
  by (simp add: thread_contrib_def withinLimits_def thread_col_def thread_row_def
      valid_kparams [OF v] valp_of_def valm_of_def at4_def add_ac mult.assoc)

lemma launch_tfms:
  fixes points masks gOut cT gp gm gt :: buf
  assumes v: "valid_input B K R C ps ms ts n"
    and N: "dx * dy = 2 ^ (5 + d)"
    and cover: "C \<le> gx * dx" "R \<le> gy * dy"
    and b: "b < B" and k: "k < K" and i: "i < 12"
  shows "snd (snd (computeGradients_launch (gx, gy, B) (dx, dy) (kparams_of R C K ps ms ts)
                     points masks gOut cT junk (gp, gm, gt))) (b * (K * 12) + k * 12 + i)
         = gt (b * (K * 12) + k * 12 + i) + grad_tfm_sum points masks gOut K R C b k i"
proof -
  define P where "P = kparams_of R C K ps ms ts"
  define E where "E = (\<lambda>bx by bz. \<lparr>e_P = kparams_of R C K ps ms ts, e_points = points, e_masks = masks,
                      e_gradTfmpoints = gOut, e_constTfms = cT,
                      blockDim_x = dx, blockDim_y = dy,
                      blockIdx_x = bx, blockIdx_y = by, blockIdx_z = bz\<rparr>)"
  define a where "a = b * (K * 12) + k * 12 + i"
  define f where "f = (\<lambda>bz by bx (st :: kstate).
     computeGradients_block (E bx by bz)
       (st\<lparr>st_sharedData := fst (junk (bx, by, bz)), st_regs := snd (junk (bx, by, bz))\<rparr>))"
  define D where "D = (\<lambda>by bx. \<Sum>t\<leftarrow>block_threads (E bx by b). thread_contrib (E bx by b) k t i)"
  define st0 :: kstate where "st0 = \<lparr>st_gradPoints = gp, st_gradMasks = gm,
                    st_gradTfms = gt, st_sharedData = (\<lambda>a. 0), st_regs = (\<lambda>t. (0, 0, 0))\<rparr>"
  have EP: "e_P (E bx by bz) = kparams_of R C K ps ms ts" "blockIdx_z (E bx by bz) = bz"
    "blockDim_x (E bx by bz) = dx" "blockDim_y (E bx by bz) = dy" for bx "by" bz
    by (simp_all add: E_def)
  have NT: "nThreads (E bx by bz) = 2 ^ (5 + d)" for bx "by" bz
    using N by (simp add: nThreads_def EP)
  have ki: "k * 12 + i < K * 12" using k i by arith
  have step: "st_gradTfms (f bz by bx st) a
              = st_gradTfms st a + (if bz = b then D by bx else 0)" for bz "by" bx st
  proof (cases "bz = b")
    case True
    have "st_gradTfms (f b by bx st) (blockIdx_z (E bx by b) * ts0 (e_P (E bx by b)) + (k * 12 + i))
          = st_gradTfms st (blockIdx_z (E bx by b) * ts0 (e_P (E bx by b)) + (k * 12 + i))
            + D by bx"
      unfolding f_def D_def
      by (subst block_tfms [OF NT]) (simp_all add: EP valid_kparams [OF v] k i)
    then show ?thesis using True by (simp add: EP valid_kparams [OF v] a_def add.assoc)
  next
    case False
    have "a < bz * (K * 12) \<or> bz * (K * 12) + K * 12 \<le> a"
    proof (cases "bz < b")
      case True
      then have "(bz + 1) * (K * 12) \<le> b * (K * 12)" by (intro mult_le_mono1) simp
      then show ?thesis by (simp add: a_def)
    next
      case False
      then have "b + 1 \<le> bz" using \<open>bz \<noteq> b\<close> by simp
      then have "(b + 1) * (K * 12) \<le> bz * (K * 12)" by (intro mult_le_mono1)
      then have "a < bz * (K * 12)" using ki by (simp add: a_def)
      then show ?thesis by simp
    qed
    then have "st_gradTfms (f bz by bx st) a = st_gradTfms st a"
      unfolding f_def
      by (subst block_tfms_frame) (simp_all add: EP valid_kparams [OF v])
    then show ?thesis using False by simp
  qed
  have "st_gradTfms (fold (\<lambda>bz. fold (\<lambda>by. fold (\<lambda>bx. f bz by bx) [0..<gx]) [0..<gy]) [0..<B] st0) a
        = st_gradTfms st0 a
          + (\<Sum>bz\<leftarrow>[0..<B]. \<Sum>by\<leftarrow>[0..<gy]. \<Sum>bx\<leftarrow>[0..<gx]. if bz = b then D by bx else 0)"
    by (rule fold3_add [where pr = "\<lambda>st. st_gradTfms st a"]) (rule step)
  also have "(\<Sum>bz\<leftarrow>[0..<B]. \<Sum>by\<leftarrow>[0..<gy]. \<Sum>bx\<leftarrow>[0..<gx]. if bz = b then D by bx else 0)
             = (\<Sum>bz\<leftarrow>[0..<B]. if bz = b then (\<Sum>by\<leftarrow>[0..<gy]. \<Sum>bx\<leftarrow>[0..<gx]. D by bx) else 0)"
    by (intro arg_cong [where f = sum_list] map_cong refl) simp
  also have "\<dots> = (\<Sum>by\<leftarrow>[0..<gy]. \<Sum>bx\<leftarrow>[0..<gx]. D by bx)"
    by (rule sum_list_single [OF b])
  also have "\<dots> = (\<Sum>by<gy. \<Sum>bx<gx. D by bx)"
    by (simp add: interv_sum_list_conv_sum_set_nat lessThan_atLeast0)
  also have "\<dots> = (\<Sum>by<gy. \<Sum>bx<gx. \<Sum>ty<dy. \<Sum>tx<dx.
            if bx * dx + tx < C \<and> by * dy + ty < R
            then grad_tfm_point (at4 masks K R C b k (by * dy + ty) (bx * dx + tx))
                   (\<lambda>j. at4 points 3 R C b j (by * dy + ty) (bx * dx + tx))
                   (\<lambda>j. at4 gOut 3 R C b j (by * dy + ty) (bx * dx + tx)) i
            else 0)"
    unfolding D_def sum_block_threads EP
    unfolding E_def thread_contrib_cell [OF v] ..
  also have "\<dots> = grad_tfm_sum points masks gOut K R C b k i"
    unfolding grad_tfm_sum_def
    by (rule sum_grid [OF cover, where F = "\<lambda>r c. grad_tfm_point (at4 masks K R C b k r c)
                   (\<lambda>j. at4 points 3 R C b j r c) (\<lambda>j. at4 gOut 3 R C b j r c) i"])
  finally have "st_gradTfms (fold (\<lambda>bz. fold (\<lambda>by. fold (\<lambda>bx. f bz by bx) [0..<gx]) [0..<gy]) [0..<B] st0) a
        = gt a + grad_tfm_sum points masks gOut K R C b k i"
    by (simp add: st0_def)
  then show ?thesis
    unfolding computeGradients_launch_def f_def E_def st0_def a_def
    by (simp add: Let_def)
qed



section \<open>The transform gradient\<close>

lemma backward_launcher_runs:
  assumes "16 * 16 * 3 * 4 * 4 + K * 3 * 4 * 4 \<le> (32000 :: nat)"
  shows "NTfm3D_BackwardLauncher points masks tfms tfmpoints gp gm gt gOut B nd R C K n ps ms ts
           cT0 junk
         = Inr (computeGradients_launch
                  (nat \<lceil>real C * (1 / 16)\<rceil>, nat \<lceil>real R * (1 / 16)\<rceil>, B) (16, 16)
                  (kparams_of R C K ps ms ts) points masks gOut
                  (cudaMemcpyToSymbol cT0 tfms n) junk (gp, gm, gt))"
  using assms by (simp add: NTfm3D_BackwardLauncher_def Let_def)

text \<open>
  Claim C4 (transform gradient). On a valid input whose transforms fit the shared-memory
  budget of the launcher, the launch adds to entry \<open>j\<close> of the gradient of transform
  \<open>(b, k)\<close> the sum, over all cells \<open>(r, c)\<close> of batch \<open>b\<close>, of the contribution of the
  cell: \<open>w\<^sub>k * p\<^sub>c * g\<^sub>a\<close> for the entry \<open>j = 4 a + c\<close> of the linear part and \<open>w\<^sub>k * g\<^sub>a\<close>
  for the translation entry \<open>j = 4 a + 3\<close>. On the zero-filled buffer the entry point
  passes, the final gradient is that sum.
\<close>

theorem transform_gradient_sums_contributions:
  fixes points masks tfms tfmpoints gradPoints gradMasks gradTfms gradTfmpoints constTfms0 :: buf
  assumes "valid_input B K R C ps ms ts nTfmParams"
    and "16 * 16 * 3 * 4 * 4 + K * 3 * 4 * 4 \<le> (32000 :: nat)"
    and "b < B" and "k < K" and "j < 12"
  shows "\<exists>gp gm gt.
           NTfm3D_BackwardLauncher points masks tfms tfmpoints gradPoints gradMasks gradTfms
             gradTfmpoints B 3 R C K nTfmParams ps ms ts constTfms0 junk = Inr (gp, gm, gt)
           \<and> tfm_at gt K b k j
             = tfm_at gradTfms K b k j + grad_tfm_sum points masks gradTfmpoints K R C b k j"
proof -
  have N: "16 * 16 = (2::nat) ^ (5 + 3)" by simp
  have c: "C \<le> nat \<lceil>real C * (1 / 16)\<rceil> * 16" "R \<le> nat \<lceil>real R * (1 / 16)\<rceil> * 16"
    using blocks_cover [where d = 16 and n = C] blocks_cover [where d = 16 and n = R]
    by simp_all
  obtain gp gm gt where res: "computeGradients_launch
                  (nat \<lceil>real C * (1 / 16)\<rceil>, nat \<lceil>real R * (1 / 16)\<rceil>, B) (16, 16)
                  (kparams_of R C K ps ms ts) points masks gradTfmpoints
                  (cudaMemcpyToSymbol constTfms0 tfms nTfmParams) junk
                  (gradPoints, gradMasks, gradTfms) = (gp, gm, gt)"
    by (rule prod_cases3)
  have "tfm_at gt K b k j
        = tfm_at gradTfms K b k j + grad_tfm_sum points masks gradTfmpoints K R C b k j"
    using launch_tfms [OF assms(1) N c assms(3,4,5), where points = points and masks = masks
        and gOut = gradTfmpoints and cT = "cudaMemcpyToSymbol constTfms0 tfms nTfmParams"
        and junk = junk and gp = gradPoints and gm = gradMasks and gt = gradTfms]
    unfolding res by (simp add: tfm_at_def)
  then show ?thesis
    unfolding backward_launcher_runs [OF assms(2)] res by simp
qed

theorem transform_gradient_sums_contributions_witness:
  "(\<exists>gp gm gt.
      NTfm3D_BackwardLauncher (tdata ex_points) (tdata ex_masks) (tdata ex_tfms) (\<lambda>a. 7)
        (\<lambda>a. 7) (\<lambda>a. 7) (\<lambda>a. 0) (tdata ex_gradOut) 1 3 1 1 1 12
        [3, 1, 1, 1] [1, 1, 1, 1] [12, 12, 1] (\<lambda>a. 7) (\<lambda>blk. (\<lambda>a. 7, \<lambda>t. (7, 7, 7)))
      = Inr (gp, gm, gt) \<and> tfm_at gt 1 0 0 0 = 1)
   \<and> (\<exists>gp gm gt.
      NTfm3D_BackwardLauncher (tdata ex_points) (tdata ex_masks) (tdata ex_tfms) (\<lambda>a. 7)
        (\<lambda>a. 7) (\<lambda>a. 7) (\<lambda>a. 0) (tdata ex_gradOut) 1 3 1 1 1 12
        [3, 1, 1, 1] [1, 1, 1, 1] [12, 12, 1] (\<lambda>a. 7) (\<lambda>blk. (\<lambda>a. 7, \<lambda>t. (7, 7, 7)))
      = Inr (gp, gm, gt) \<and> tfm_at gt 1 0 0 1 = 0)"
  using transform_gradient_sums_contributions [OF ex_valid_input, where b = 0 and k = 0
      and j = 0 and points = "tdata ex_points" and masks = "tdata ex_masks"
      and gradTfmpoints = "tdata ex_gradOut" and gradTfms = "\<lambda>a. 0"]
    transform_gradient_sums_contributions [OF ex_valid_input, where b = 0 and k = 0
      and j = 1 and points = "tdata ex_points" and masks = "tdata ex_masks"
      and gradTfmpoints = "tdata ex_gradOut" and gradTfms = "\<lambda>a. 0"]
  by (simp add: grad_tfm_sum_def grad_tfm_point_def at4_def tfm_at_def ex_points_def
      ex_masks_def ex_gradOut_def buf_of_def)

text \<open>
  Claim C5 (accumulation correctness). Take two decompositions of the same launch into
  blocks, each with a power of two of at least 32 threads per block and enough blocks to
  cover the cells. The tree reduction of each block, its warp-level finish and the atomic
  adds across the blocks leave the same transform gradient: in both, entry \<open>j\<close> of
  transform \<open>(b, k)\<close> is what the buffer held plus the plain sum of the contributions of
  all cells of batch \<open>b\<close>, whatever the shared memory and registers of the blocks held.
\<close>

theorem reduction_independent_of_grouping:
  fixes points masks gradTfmpoints constTfms gp gm gt gp' gm' :: buf
  assumes "valid_input B K R C ps ms ts nTfmParams"
    and "dx * dy = 2 ^ (5 + d)" and "C \<le> gx * dx" and "R \<le> gy * dy"
    and "dx' * dy' = 2 ^ (5 + d')" and "C \<le> gx' * dx'" and "R \<le> gy' * dy'"
    and "b < B" and "k < K" and "j < 12"
  shows "tfm_at (snd (snd (computeGradients_launch (gx, gy, B) (dx, dy)
                   (kparams_of R C K ps ms ts) points masks gradTfmpoints constTfms junk
                   (gp, gm, gt)))) K b k j
         = tfm_at gt K b k j + grad_tfm_sum points masks gradTfmpoints K R C b k j
         \<and> tfm_at (snd (snd (computeGradients_launch (gx', gy', B) (dx', dy')
                   (kparams_of R C K ps ms ts) points masks gradTfmpoints constTfms junk'
                   (gp', gm', gt)))) K b k j
         = tfm_at gt K b k j + grad_tfm_sum points masks gradTfmpoints K R C b k j"
  using launch_tfms [OF assms(1,2,3,4,8,9,10)] launch_tfms [OF assms(1,5,6,7,8,9,10)]
  by (simp add: tfm_at_def)

lemma ex_row_valid_input:
  "valid_input 1 1 1 64 [192, 64, 64, 1] [64, 64, 64, 1] [12, 12, 1] 12"
  by (simp add: valid_input_def)

theorem reduction_independent_of_grouping_witness:
  "tfm_at (snd (snd (computeGradients_launch (1, 1, 1) (64, 1)
             (kparams_of 1 64 1 [192, 64, 64, 1] [64, 64, 64, 1] [12, 12, 1])
             (\<lambda>a. 2) (\<lambda>a. 1) (\<lambda>a. 3) (\<lambda>a. 0) (\<lambda>blk. (\<lambda>a. 7, \<lambda>t. (7, 7, 7)))
             (\<lambda>a. 0, \<lambda>a. 0, \<lambda>a. 0)))) 1 0 0 0 = 384
   \<and> tfm_at (snd (snd (computeGradients_launch (2, 1, 1) (32, 1)
             (kparams_of 1 64 1 [192, 64, 64, 1] [64, 64, 64, 1] [12, 12, 1])
             (\<lambda>a. 2) (\<lambda>a. 1) (\<lambda>a. 3) (\<lambda>a. 0) (\<lambda>blk. (\<lambda>a. 5, \<lambda>t. (5, 5, 5)))
             (\<lambda>a. 0, \<lambda>a. 0, \<lambda>a. 0)))) 1 0 0 0 = 384"
  using reduction_independent_of_grouping [OF ex_row_valid_input, where dx = 64 and dy = 1
      and d = 1 and gx = 1 and gy = 1 and dx' = 32 and dy' = 1 and d' = 0 and gx' = 2
      and gy' = 1 and b = 0 and k = 0 and j = 0 and points = "\<lambda>a. 2" and masks = "\<lambda>a. 1"
      and gradTfmpoints = "\<lambda>a. 3" and constTfms = "\<lambda>a. 0" and gt = "\<lambda>a. 0"
      and gp = "\<lambda>a. 0" and gm = "\<lambda>a. 0" and gp' = "\<lambda>a. 0" and gm' = "\<lambda>a. 0"
      and junk = "\<lambda>blk. (\<lambda>a. 7, \<lambda>t. (7, 7, 7))" and junk' = "\<lambda>blk. (\<lambda>a. 5, \<lambda>t. (5, 5, 5))"]
  by (simp add: grad_tfm_sum_def grad_tfm_point_def at4_def tfm_at_def)

section \<open>The mask gradient of a block\<close>

lemma transform_round_masks:
  "st_gradMasks (transform_round E k st)
   = st_gradMasks (fold (grad_thread E k) (block_threads E) st)"
  by (simp add: transform_round_def warp_finish_other reduce_loop_other)

lemma round_masks_miss:
  assumes "\<And>t. t \<in> set (block_threads E) \<Longrightarrow> withinLimits E t
             \<Longrightarrow> k * ms1 (e_P E) + valm_of E t \<noteq> a"
  shows "st_gradMasks (transform_round E k st) a = st_gradMasks st a"
  unfolding transform_round_masks
  by (rule fold_frame [where pr = "\<lambda>st. st_gradMasks st a"])
    (use assms in \<open>auto simp add: grad_thread_masks\<close>)

lemma round_masks_hit:
  assumes t: "t \<in> set (block_threads E)" and w: "withinLimits E t"
    and inj: "\<And>t'. t' \<in> set (block_threads E) \<Longrightarrow> withinLimits E t' \<Longrightarrow> t' \<noteq> t
                \<Longrightarrow> valm_of E t' \<noteq> valm_of E t"
  shows "st_gradMasks (transform_round E k st) (k * ms1 (e_P E) + valm_of E t)
         = grad_mask (\<lambda>j. e_points E (j * ps1 (e_P E) + valp_of E t))
             (\<lambda>j. e_gradTfmpoints E (j * ps1 (e_P E) + valp_of E t))
             (\<lambda>j. e_constTfms E (blockIdx_z E * ts0 (e_P E) + k * ts1 (e_P E) + j))"
  unfolding transform_round_masks
proof (rule fold_hit [where pr = "\<lambda>st. st_gradMasks st (k * ms1 (e_P E) + valm_of E t)"
      and x = t, OF t])
  fix s
  show "st_gradMasks (grad_thread E k t s) (k * ms1 (e_P E) + valm_of E t)
        = grad_mask (\<lambda>j. e_points E (j * ps1 (e_P E) + valp_of E t))
            (\<lambda>j. e_gradTfmpoints E (j * ps1 (e_P E) + valp_of E t))
            (\<lambda>j. e_constTfms E (blockIdx_z E * ts0 (e_P E) + k * ts1 (e_P E) + j))"
    by (simp add: grad_thread_masks w)
next
  fix t' s
  assume "t' \<in> set (block_threads E)" "t' \<noteq> t"
  then show "st_gradMasks (grad_thread E k t' s) (k * ms1 (e_P E) + valm_of E t)
             = st_gradMasks s (k * ms1 (e_P E) + valm_of E t)"
    using inj [of t'] by (auto simp add: grad_thread_masks)
qed

lemma block_masks_miss:
  assumes "\<And>k t. k < nSE3 (e_P E) \<Longrightarrow> t \<in> set (block_threads E) \<Longrightarrow> withinLimits E t
             \<Longrightarrow> k * ms1 (e_P E) + valm_of E t \<noteq> a"
  shows "st_gradMasks (computeGradients_block E st) a = st_gradMasks st a"
proof -
  have 1: "st_gradMasks (fold (final_thread E) (block_threads E) s) a = st_gradMasks s a" for s
    by (rule fold_frame [where pr = "\<lambda>st. st_gradMasks st a"]) (simp add: final_thread_other)
  have 2: "st_gradMasks (fold (transform_round E) [0..<nSE3 (e_P E)] s) a = st_gradMasks s a"
    for s
    by (rule fold_frame [where pr = "\<lambda>st. st_gradMasks st a"])
      (simp add: round_masks_miss assms)
  have 3: "st_gradMasks (fold (init_thread E) (block_threads E) s) a = st_gradMasks s a" for s
    by (rule fold_frame [where pr = "\<lambda>st. st_gradMasks st a"]) (simp add: init_thread_other)
  show ?thesis
    unfolding computeGradients_block_def by (simp add: 1 2 3)
qed

lemma block_masks_hit:
  assumes t: "t \<in> set (block_threads E)" and w: "withinLimits E t" and k: "k < nSE3 (e_P E)"
    and inj: "\<And>k' t'. k' < nSE3 (e_P E) \<Longrightarrow> t' \<in> set (block_threads E) \<Longrightarrow> withinLimits E t'
                \<Longrightarrow> (k', t') \<noteq> (k, t)
                \<Longrightarrow> k' * ms1 (e_P E) + valm_of E t' \<noteq> k * ms1 (e_P E) + valm_of E t"
  shows "st_gradMasks (computeGradients_block E st) (k * ms1 (e_P E) + valm_of E t)
         = grad_mask (\<lambda>j. e_points E (j * ps1 (e_P E) + valp_of E t))
             (\<lambda>j. e_gradTfmpoints E (j * ps1 (e_P E) + valp_of E t))
             (\<lambda>j. e_constTfms E (blockIdx_z E * ts0 (e_P E) + k * ts1 (e_P E) + j))"
proof -
  define a where "a = k * ms1 (e_P E) + valm_of E t"
  define v where "v = grad_mask (\<lambda>j. e_points E (j * ps1 (e_P E) + valp_of E t))
             (\<lambda>j. e_gradTfmpoints E (j * ps1 (e_P E) + valp_of E t))
             (\<lambda>j. e_constTfms E (blockIdx_z E * ts0 (e_P E) + k * ts1 (e_P E) + j))"
  have 1: "st_gradMasks (fold (final_thread E) (block_threads E) s) a = st_gradMasks s a" for s
    by (rule fold_frame [where pr = "\<lambda>st. st_gradMasks st a"]) (simp add: final_thread_other)
  have 2: "st_gradMasks (fold (transform_round E) [0..<nSE3 (e_P E)] s) a = v" for s
  proof (rule fold_hit [where pr = "\<lambda>st. st_gradMasks st a" and x = k])
    show "k \<in> set [0..<nSE3 (e_P E)]" using k by simp
  next
    fix s
    have "valm_of E t' \<noteq> valm_of E t"
      if "t' \<in> set (block_threads E)" "withinLimits E t'" "t' \<noteq> t" for t'
      using inj [OF k that(1,2)] that(3) by simp
    then show "st_gradMasks (transform_round E k s) a = v"
      unfolding a_def v_def by (intro round_masks_hit t w)
  next
    fix k' s
    assume "k' \<in> set [0..<nSE3 (e_P E)]" "k' \<noteq> k"
    then show "st_gradMasks (transform_round E k' s) a = st_gradMasks s a"
      unfolding a_def using inj [of k'] by (intro round_masks_miss) simp
  qed
  show ?thesis
    unfolding computeGradients_block_def a_def [symmetric] v_def [symmetric] by (simp add: 1 2)
qed


section \<open>The cell of a thread\<close>

lemma env_cell:
  assumes v: "valid_input B K R C ps ms ts n"
  defines "P \<equiv> kparams_of R C K ps ms ts"
  shows "withinLimits \<lparr>e_P = P, e_points = points, e_masks = masks,
                      e_gradTfmpoints = gOut, e_constTfms = cT,
                      blockDim_x = dx, blockDim_y = dy,
                      blockIdx_x = bx, blockIdx_y = by, blockIdx_z = bz\<rparr> (tx, ty)
         = (bx * dx + tx < C \<and> by * dy + ty < R)"
    and "valm_of \<lparr>e_P = P, e_points = points, e_masks = masks,
                      e_gradTfmpoints = gOut, e_constTfms = cT,
                      blockDim_x = dx, blockDim_y = dy,
                      blockIdx_x = bx, blockIdx_y = by, blockIdx_z = bz\<rparr> (tx, ty)
         = bz * (K * R * C) + (by * dy + ty) * C + (bx * dx + tx)"
    and "valp_of \<lparr>e_P = P, e_points = points, e_masks = masks,
                      e_gradTfmpoints = gOut, e_constTfms = cT,
                      blockDim_x = dx, blockDim_y = dy,
                      blockIdx_x = bx, blockIdx_y = by, blockIdx_z = bz\<rparr> (tx, ty)
         = bz * (3 * R * C) + (by * dy + ty) * C + (bx * dx + tx)"
  by (simp_all add: P_def withinLimits_def valm_of_def valp_of_def thread_col_def thread_row_def
      valid_kparams [OF v])

lemma split_index:
  fixes q t d x :: nat
  assumes "t < d"
  shows "(q * d + t = x) = (q = x div d \<and> t = x mod d)"
proof
  assume "q * d + t = x"
  then show "q = x div d \<and> t = x mod d" using assms by auto
next
  assume "q = x div d \<and> t = x mod d"
  then show "q * d + t = x" by simp
qed

text \<open>Exactly one thread of the grid, in exactly one round, stores to a given mask cell.\<close>

lemma mask_writer_unique:
  fixes points masks gOut cT :: buf and bx "by" bz :: nat
  assumes v: "valid_input B K R C ps ms ts n"
    and cell: "k < K" "r < R" "c < C"
    and thread: "k' < K" "tx < dx" "ty < dy"
  defines "E \<equiv> \<lparr>e_P = kparams_of R C K ps ms ts, e_points = points, e_masks = masks,
                      e_gradTfmpoints = gOut, e_constTfms = cT,
                      blockDim_x = dx, blockDim_y = dy,
                      blockIdx_x = bx, blockIdx_y = by, blockIdx_z = bz\<rparr>"
  assumes w: "withinLimits E (tx, ty)"
  shows "(k' * ms1 (e_P E) + valm_of E (tx, ty) = b * (K * R * C) + k * (R * C) + r * C + c)
         = (bz = b \<and> k' = k \<and> by = r div dy \<and> ty = r mod dy \<and> bx = c div dx \<and> tx = c mod dx)"
proof -
  have w': "bx * dx + tx < C" "by * dy + ty < R"
    using w unfolding E_def env_cell [OF v] by simp_all
  have "k' * ms1 (e_P E) + valm_of E (tx, ty)
        = bz * (K * R * C) + k' * (R * C) + (by * dy + ty) * C + (bx * dx + tx)"
    unfolding E_def env_cell [OF v] by (simp add: valid_kparams [OF v])
  moreover have "(bz * (K * R * C) + k' * (R * C) + (by * dy + ty) * C + (bx * dx + tx)
                  = b * (K * R * C) + k * (R * C) + r * C + c)
                 = (bz = b \<and> k' = k \<and> by * dy + ty = r \<and> bx * dx + tx = c)"
    using addr4_inj [of bz K R C k' "by * dy + ty" "bx * dx + tx" b k r c] cell thread(1) w'
    by auto
  ultimately show ?thesis
    using split_index [OF thread(2), of bx c] split_index [OF thread(3), of "by" r] by simp
qed


section \<open>The mask gradient of a launch\<close>

lemma launch_masks:
  fixes points masks gOut cT gp gm gt :: buf
  assumes v: "valid_input B K R C ps ms ts n"
    and dx: "0 < dx" and dy: "0 < dy"
    and cover: "C \<le> gx * dx" "R \<le> gy * dy"
    and b: "b < B" and k: "k < K" and r: "r < R" and c: "c < C"
  shows "fst (snd (computeGradients_launch (gx, gy, B) (dx, dy) (kparams_of R C K ps ms ts)
                     points masks gOut cT junk (gp, gm, gt)))
           (b * (K * R * C) + k * (R * C) + r * C + c)
         = grad_mask (\<lambda>j. at4 points 3 R C b j r c) (\<lambda>j. at4 gOut 3 R C b j r c)
             (\<lambda>j. cT (b * (K * 12) + k * 12 + j))"
proof -
  define E where "E = (\<lambda>bx by bz. \<lparr>e_P = kparams_of R C K ps ms ts, e_points = points,
                      e_masks = masks, e_gradTfmpoints = gOut, e_constTfms = cT,
                      blockDim_x = dx, blockDim_y = dy,
                      blockIdx_x = bx, blockIdx_y = by, blockIdx_z = bz\<rparr>)"
  define a where "a = b * (K * R * C) + k * (R * C) + r * C + c"
  define val where "val = grad_mask (\<lambda>j. at4 points 3 R C b j r c)
             (\<lambda>j. at4 gOut 3 R C b j r c) (\<lambda>j. cT (b * (K * 12) + k * 12 + j))"
  define f where "f = (\<lambda>bz by bx (st :: kstate).
     computeGradients_block (E bx by bz)
       (st\<lparr>st_sharedData := fst (junk (bx, by, bz)), st_regs := snd (junk (bx, by, bz))\<rparr>))"
  define st0 :: kstate where "st0 = \<lparr>st_gradPoints = gp, st_gradMasks = gm,
                    st_gradTfms = gt, st_sharedData = (\<lambda>a. 0), st_regs = (\<lambda>t. (0, 0, 0))\<rparr>"
  define t where "t = (c mod dx, r mod dy)"
  have EP: "e_P (E bx by bz) = kparams_of R C K ps ms ts" "blockIdx_z (E bx by bz) = bz"
    "blockDim_x (E bx by bz) = dx" "blockDim_y (E bx by bz) = dy"
    "e_points (E bx by bz) = points" "e_gradTfmpoints (E bx by bz) = gOut"
    "e_constTfms (E bx by bz) = cT" for bx "by" bz
    by (simp_all add: E_def)
  have threads: "(tx, ty) \<in> set (block_threads (E bx by bz)) = (tx < dx \<and> ty < dy)"
    for tx ty bx "by" bz
    by (simp add: block_threads_set EP)
  have uniq: "(k' * ms1 (e_P (E bx by bz)) + valm_of (E bx by bz) (tx, ty) = a)
         = (bz = b \<and> k' = k \<and> by = r div dy \<and> ty = r mod dy \<and> bx = c div dx \<and> tx = c mod dx)"
    if "k' < K" "tx < dx" "ty < dy" "withinLimits (E bx by bz) (tx, ty)" for k' tx ty bx "by" bz
    using that(4) unfolding E_def a_def
    by (rule mask_writer_unique [OF v k r c that(1,2,3)])
  have tin: "t \<in> set (block_threads (E bx by bz))" for bx "by" bz
    using dx dy by (simp add: t_def threads)
  have tw: "withinLimits (E (c div dx) (r div dy) b) t"
    unfolding E_def t_def env_cell [OF v] using r c by simp
  have ta: "k * ms1 (e_P (E (c div dx) (r div dy) b)) + valm_of (E (c div dx) (r div dy) b) t = a"
    using uniq [OF k, of "c mod dx" "r mod dy" "c div dx" "r div dy" b] tw dx dy
    by (simp add: t_def)
  have tp: "j * ps1 (e_P (E (c div dx) (r div dy) b)) + valp_of (E (c div dx) (r div dy) b) t
            = b * (3 * R * C) + j * (R * C) + r * C + c" for j
    unfolding E_def t_def env_cell [OF v] by (simp add: valid_kparams [OF v])
  have hit: "st_gradMasks (f b (r div dy) (c div dx) s) a = val" for s
  proof -
    have "st_gradMasks (f b (r div dy) (c div dx) s)
            (k * ms1 (e_P (E (c div dx) (r div dy) b)) + valm_of (E (c div dx) (r div dy) b) t)
          = grad_mask
              (\<lambda>j. e_points (E (c div dx) (r div dy) b)
                     (j * ps1 (e_P (E (c div dx) (r div dy) b))
                      + valp_of (E (c div dx) (r div dy) b) t))
              (\<lambda>j. e_gradTfmpoints (E (c div dx) (r div dy) b)
                     (j * ps1 (e_P (E (c div dx) (r div dy) b))
                      + valp_of (E (c div dx) (r div dy) b) t))
              (\<lambda>j. e_constTfms (E (c div dx) (r div dy) b)
                     (blockIdx_z (E (c div dx) (r div dy) b) * ts0 (e_P (E (c div dx) (r div dy) b))
                      + k * ts1 (e_P (E (c div dx) (r div dy) b)) + j))"
      unfolding f_def
    proof (rule block_masks_hit [OF tin tw])
      show "k < nSE3 (e_P (E (c div dx) (r div dy) b))"
        using k by (simp add: EP valid_kparams [OF v])
    next
      fix k' t'
      assume h: "k' < nSE3 (e_P (E (c div dx) (r div dy) b))"
        "t' \<in> set (block_threads (E (c div dx) (r div dy) b))"
        "withinLimits (E (c div dx) (r div dy) b) t'" "(k', t') \<noteq> (k, t)"
      obtain tx ty where t': "t' = (tx, ty)" by (cases t')
      have "k' < K" "tx < dx" "ty < dy"
        using h(1,2) by (simp_all add: EP valid_kparams [OF v] t' threads)
      from uniq [OF this] h(3,4) 
      show "k' * ms1 (e_P (E (c div dx) (r div dy) b)) + valm_of (E (c div dx) (r div dy) b) t'
            \<noteq> k * ms1 (e_P (E (c div dx) (r div dy) b)) + valm_of (E (c div dx) (r div dy) b) t"
        unfolding ta by (auto simp add: t' t_def)
    qed
    moreover have "k * (R * C) + valm_of (E (c div dx) (r div dy) b) t = a"
      using ta by (simp add: EP valid_kparams [OF v])
    moreover have "j * (R * C) + valp_of (E (c div dx) (r div dy) b) t
                   = b * (3 * R * C) + j * (R * C) + r * C + c" for j
      using tp [of j] by (simp add: EP valid_kparams [OF v])
    ultimately show ?thesis
      by (simp add: EP valid_kparams [OF v] val_def at4_def)
  qed
  have miss: "st_gradMasks (f bz by bx s) a = st_gradMasks s a"
    if "(bz, by, bx) \<noteq> (b, r div dy, c div dx)" for bz "by" bx s
  proof -
    have "st_gradMasks (f bz by bx s) a
          = st_gradMasks (s\<lparr>st_sharedData := fst (junk (bx, by, bz)),
                            st_regs := snd (junk (bx, by, bz))\<rparr>) a"
      unfolding f_def
    proof (rule block_masks_miss)
      fix k' t'
      assume h: "k' < nSE3 (e_P (E bx by bz))" "t' \<in> set (block_threads (E bx by bz))"
        "withinLimits (E bx by bz) t'"
      obtain tx ty where t': "t' = (tx, ty)" by (cases t')
      have "k' < K" "tx < dx" "ty < dy"
        using h(1,2) by (simp_all add: EP valid_kparams [OF v] t' threads)
      from uniq [OF this] h(3) that
      show "k' * ms1 (e_P (E bx by bz)) + valm_of (E bx by bz) t' \<noteq> a"
        by (auto simp add: t')
    qed
    then show ?thesis by simp
  qed
  have "st_gradMasks (fold (\<lambda>bz. fold (\<lambda>by. fold (\<lambda>bx. f bz by bx) [0..<gx]) [0..<gy]) [0..<B] st0) a
        = val"
  proof (rule fold3_hit [where pr = "\<lambda>st. st_gradMasks st a" and x = b and y = "r div dy"
        and z = "c div dx"])
    show "b \<in> set [0..<B]" using b by simp
    have "r < gy * dy" "c < gx * dx" using r c cover by simp_all
    then show "r div dy \<in> set [0..<gy]" "c div dx \<in> set [0..<gx]"
      using dx dy by (simp_all add: div_less_iff_less_mult)
  next
    fix s show "st_gradMasks (f b (r div dy) (c div dx) s) a = val" by (rule hit)
  next
    fix x' y' z' s
    assume "(x', y', z') \<noteq> (b, r div dy, c div dx)"
    then show "st_gradMasks (f x' y' z' s) a = st_gradMasks s a" by (rule miss)
  qed
  then show ?thesis
    unfolding computeGradients_launch_def f_def E_def st0_def a_def val_def
    by (simp add: Let_def)
qed


section \<open>The registers of a thread\<close>

lemma fold_hit_inv:
  assumes "x \<in> set xs" and "I s"
    and "\<And>y s. y \<in> set xs \<Longrightarrow> I s \<Longrightarrow> I (f y s)"
    and "\<And>s. I s \<Longrightarrow> pr (f x s) = v"
    and "\<And>y s. y \<in> set xs \<Longrightarrow> y \<noteq> x \<Longrightarrow> I s \<Longrightarrow> pr (f y s) = pr s"
  shows "pr (fold f xs s) = v"
  using assms
proof (induction xs arbitrary: s)
  case Nil
  then show ?case by simp
next
  case (Cons a xs)
  have Ia: "I (f a s)" using Cons.prems(2,3) by simp
  show ?case
  proof (cases "x \<in> set xs")
    case True
    have "pr (fold f xs (f a s)) = v"
      using True Ia Cons.prems(3,4,5) by (intro Cons.IH) simp_all
    then show ?thesis by simp
  next
    case False
    then have ax: "a = x" using Cons.prems(1) by simp
    have "pr (fold f ys s') = pr s'" if "set ys \<subseteq> set xs" "I s'" for ys s'
      using that
    proof (induction ys arbitrary: s')
      case Nil
      then show ?case by simp
    next
      case (Cons y ys)
      have y: "y \<in> set xs" "y \<noteq> x" using Cons.prems(1) False by auto
      have 1: "I (f y s')"
        using y(1) Cons.prems(2) \<open>\<And>y s. y \<in> set (a # xs) \<Longrightarrow> I s \<Longrightarrow> I (f y s)\<close> by simp
      have 2: "pr (f y s') = pr s'"
        using y Cons.prems(2) \<open>\<And>y s. y \<in> set (a # xs) \<Longrightarrow> y \<noteq> x \<Longrightarrow> I s \<Longrightarrow> pr (f y s) = pr s\<close>
        by simp
      show ?case using Cons.IH [OF _ 1] Cons.prems(1) 2 by simp
    qed
    from this [of xs "f a s"] Ia have "pr (fold f xs (f a s)) = pr (f a s)" by simp
    then show ?thesis using Cons.prems(2,4) ax by simp
  qed
qed

lemma grad_thread_regs:
  assumes "i < 3"
  shows "reg_coord (st_regs (grad_thread E k t st) m) i
         = reg_coord (st_regs st m) i
           + (if m = thread_id E t \<and> withinLimits E t then thread_point_term E k t i else 0)"
proof -
  have "i = 0 \<or> i = 1 \<or> i = 2" using assms by arith
  then show ?thesis
    by (auto simp add: grad_thread_def Let_def reg_coord_def thread_point_term_def
        split: prod.splits)
qed

lemma round_regs:
  assumes t: "t \<in> set (block_threads E)" and i: "i < 3"
  shows "reg_coord (st_regs (transform_round E k st) (thread_id E t)) i
         = reg_coord (st_regs st (thread_id E t)) i
           + (if withinLimits E t then thread_point_term E k t i else 0)"
proof -
  define c where "c = (if withinLimits E t then thread_point_term E k t i else 0)"
  have "reg_coord (st_regs (fold (grad_thread E k) (block_threads E) st) (thread_id E t)) i
        = reg_coord (st_regs st (thread_id E t)) i
          + (\<Sum>t'\<leftarrow>block_threads E. if thread_id E t = thread_id E t' then c else 0)
        \<and> True"
  proof (rule fold_add [where pr = "\<lambda>st. reg_coord (st_regs st (thread_id E t)) i"
        and I = "\<lambda>s. True"])
    fix t' s
    assume t': "t' \<in> set (block_threads E)"
    have "thread_id E t = thread_id E t' \<Longrightarrow> t' = t"
      using thread_id_inj [OF t t'] by simp
    then show "True \<and> reg_coord (st_regs (grad_thread E k t' s) (thread_id E t)) i
          = reg_coord (st_regs s (thread_id E t)) i
            + (if thread_id E t = thread_id E t' then c else 0)"
      by (auto simp add: grad_thread_regs [OF i] c_def)
  qed simp
  moreover have "thread_id E t < nThreads E" using t by (rule thread_id_lt)
  ultimately show ?thesis
    unfolding transform_round_def c_def [symmetric]
    by (simp add: warp_finish_other reduce_loop_other sum_one_thread)
qed

lemma rounds_regs:
  assumes t: "t \<in> set (block_threads E)" and i: "i < 3"
  shows "reg_coord (st_regs (fold (transform_round E) [0..<K] st) (thread_id E t)) i
         = reg_coord (st_regs st (thread_id E t)) i
           + (\<Sum>k<K. if withinLimits E t then thread_point_term E k t i else 0)"
proof -
  have "reg_coord (st_regs (fold (transform_round E) [0..<K] st) (thread_id E t)) i
        = reg_coord (st_regs st (thread_id E t)) i
          + (\<Sum>k\<leftarrow>[0..<K]. if withinLimits E t then thread_point_term E k t i else 0)
        \<and> True"
    by (rule fold_add [where pr = "\<lambda>st. reg_coord (st_regs st (thread_id E t)) i"
          and I = "\<lambda>s. True"]) (simp_all add: round_regs [OF t i])
  then show ?thesis
    by (simp add: interv_sum_list_conv_sum_set_nat lessThan_atLeast0)
qed

lemma init_regs:
  assumes t: "t \<in> set (block_threads E)" and w: "withinLimits E t"
  shows "st_regs (fold (init_thread E) (block_threads E) st) (thread_id E t)
         = (e_gradTfmpoints E (0 * ps1 (e_P E) + valp_of E t),
            e_gradTfmpoints E (1 * ps1 (e_P E) + valp_of E t),
            e_gradTfmpoints E (2 * ps1 (e_P E) + valp_of E t))"
proof (rule fold_hit [where pr = "\<lambda>st. st_regs st (thread_id E t)" and x = t, OF t])
  fix s
  show "st_regs (init_thread E t s) (thread_id E t)
        = (e_gradTfmpoints E (0 * ps1 (e_P E) + valp_of E t),
           e_gradTfmpoints E (1 * ps1 (e_P E) + valp_of E t),
           e_gradTfmpoints E (2 * ps1 (e_P E) + valp_of E t))"
    using w by (simp add: init_thread_def Let_def)
next
  fix t' s
  assume t': "t' \<in> set (block_threads E)" "t' \<noteq> t"
  then have "thread_id E t \<noteq> thread_id E t'"
    using thread_id_inj [OF t t'(1)] by auto
  then show "st_regs (init_thread E t' s) (thread_id E t) = st_regs s (thread_id E t)"
    by (simp add: init_thread_def Let_def)
qed


section \<open>The point gradient of a block\<close>

lemma final_thread_points:
  "st_gradPoints (final_thread E t st)
   = (if withinLimits E t
      then (st_gradPoints st)
             (0 * ps1 (e_P E) + valp_of E t := reg_coord (st_regs st (thread_id E t)) 0,
              1 * ps1 (e_P E) + valp_of E t := reg_coord (st_regs st (thread_id E t)) 1,
              2 * ps1 (e_P E) + valp_of E t := reg_coord (st_regs st (thread_id E t)) 2)
      else st_gradPoints st)"
  by (simp add: final_thread_def Let_def reg_coord_def split: prod.splits)

lemma final_points_miss:
  assumes "\<And>i t. i < 3 \<Longrightarrow> t \<in> set (block_threads E) \<Longrightarrow> withinLimits E t
             \<Longrightarrow> i * ps1 (e_P E) + valp_of E t \<noteq> a"
  shows "st_gradPoints (fold (final_thread E) (block_threads E) st) a = st_gradPoints st a"
proof (rule fold_frame [where pr = "\<lambda>st. st_gradPoints st a"])
  fix t s
  assume t: "t \<in> set (block_threads E)"
  show "st_gradPoints (final_thread E t s) a = st_gradPoints s a"
    using assms [of 0 t] assms [of 1 t] assms [of 2 t] t
    by (auto simp add: final_thread_points)
qed

lemma final_points_hit:
  assumes t: "t \<in> set (block_threads E)" and w: "withinLimits E t" and i: "i < 3"
    and inj: "\<And>i' t'. i' < 3 \<Longrightarrow> t' \<in> set (block_threads E) \<Longrightarrow> withinLimits E t'
                \<Longrightarrow> (i', t') \<noteq> (i, t)
                \<Longrightarrow> i' * ps1 (e_P E) + valp_of E t' \<noteq> i * ps1 (e_P E) + valp_of E t"
  shows "st_gradPoints (fold (final_thread E) (block_threads E) st)
           (i * ps1 (e_P E) + valp_of E t)
         = reg_coord (st_regs st (thread_id E t)) i"
proof (rule fold_hit_inv [where pr = "\<lambda>s. st_gradPoints s (i * ps1 (e_P E) + valp_of E t)"
      and I = "\<lambda>s :: kstate. st_regs s = st_regs st" and x = t, OF t])
  show "st_regs st = st_regs st" by simp
next
  fix y and s :: kstate
  assume "st_regs s = st_regs st"
  then show "st_regs (final_thread E y s) = st_regs st" by (simp add: final_thread_other)
next
  fix s :: kstate
  assume s: "st_regs s = st_regs st"
  have "i = 0 \<or> i = 1 \<or> i = 2" using i by arith
  then show "st_gradPoints (final_thread E t s) (i * ps1 (e_P E) + valp_of E t)
             = reg_coord (st_regs st (thread_id E t)) i"
    using inj [of 0 t] inj [of 1 t] inj [of 2 t] t w
    by (auto simp add: final_thread_points s)
next
  fix t' s
  assume t': "t' \<in> set (block_threads E)" "t' \<noteq> t"
  show "st_gradPoints (final_thread E t' s) (i * ps1 (e_P E) + valp_of E t)
        = st_gradPoints s (i * ps1 (e_P E) + valp_of E t)"
    using inj [of 0 t'] inj [of 1 t'] inj [of 2 t'] t'
    by (auto simp add: final_thread_points)
qed

lemma block_points_miss:
  assumes "\<And>i t. i < 3 \<Longrightarrow> t \<in> set (block_threads E) \<Longrightarrow> withinLimits E t
             \<Longrightarrow> i * ps1 (e_P E) + valp_of E t \<noteq> a"
  shows "st_gradPoints (computeGradients_block E st) a = st_gradPoints st a"
proof -
  have "st_gradPoints (fold (init_thread E) (block_threads E) st) = st_gradPoints st"
    by (intro fold_frame) (simp add: init_thread_other)
  then show ?thesis
    unfolding computeGradients_block_def
    by (simp add: final_points_miss [OF assms] rounds_other)
qed

lemma block_points_hit:
  assumes t: "t \<in> set (block_threads E)" and w: "withinLimits E t" and i: "i < 3"
    and inj: "\<And>i' t'. i' < 3 \<Longrightarrow> t' \<in> set (block_threads E) \<Longrightarrow> withinLimits E t'
                \<Longrightarrow> (i', t') \<noteq> (i, t)
                \<Longrightarrow> i' * ps1 (e_P E) + valp_of E t' \<noteq> i * ps1 (e_P E) + valp_of E t"
  shows "st_gradPoints (computeGradients_block E st) (i * ps1 (e_P E) + valp_of E t)
         = e_gradTfmpoints E (i * ps1 (e_P E) + valp_of E t)
           + (\<Sum>k<nSE3 (e_P E). thread_point_term E k t i)"
proof -
  have "i = 0 \<or> i = 1 \<or> i = 2" using i by arith
  then have 0: "reg_coord (st_regs (fold (init_thread E) (block_threads E) st) (thread_id E t)) i
        = e_gradTfmpoints E (i * ps1 (e_P E) + valp_of E t)"
    unfolding init_regs [OF t w] by (auto simp add: reg_coord_def)
  define s0 where "s0 = fold (init_thread E) (block_threads E) st"
  define s1 where "s1 = fold (transform_round E) [0..<nSE3 (e_P E)] s0"
  have "st_gradPoints (fold (final_thread E) (block_threads E) s1)
          (i * ps1 (e_P E) + valp_of E t)
        = reg_coord (st_regs s1 (thread_id E t)) i"
    by (rule final_points_hit [OF t w i]) (rule inj)
  also have "\<dots> = reg_coord (st_regs s0 (thread_id E t)) i
                   + (\<Sum>k<nSE3 (e_P E). if withinLimits E t then thread_point_term E k t i else 0)"
    unfolding s1_def by (rule rounds_regs [OF t i])
  also have "\<dots> = e_gradTfmpoints E (i * ps1 (e_P E) + valp_of E t)
                   + (\<Sum>k<nSE3 (e_P E). thread_point_term E k t i)"
    using 0 w by (simp add: s0_def)
  finally show ?thesis
    unfolding computeGradients_block_def s1_def s0_def .
qed


section \<open>The point gradient of a launch\<close>

text \<open>Exactly one thread of the grid stores to a given coordinate of a point gradient.\<close>

lemma point_writer_unique:
  fixes points masks gOut cT :: buf and bx "by" bz :: nat
  assumes v: "valid_input B K R C ps ms ts n"
    and cell: "i < 3" "r < R" "c < C"
    and thread: "i' < 3" "tx < dx" "ty < dy"
  defines "E \<equiv> \<lparr>e_P = kparams_of R C K ps ms ts, e_points = points, e_masks = masks,
                      e_gradTfmpoints = gOut, e_constTfms = cT,
                      blockDim_x = dx, blockDim_y = dy,
                      blockIdx_x = bx, blockIdx_y = by, blockIdx_z = bz\<rparr>"
  assumes w: "withinLimits E (tx, ty)"
  shows "(i' * ps1 (e_P E) + valp_of E (tx, ty) = b * (3 * R * C) + i * (R * C) + r * C + c)
         = (bz = b \<and> i' = i \<and> by = r div dy \<and> ty = r mod dy \<and> bx = c div dx \<and> tx = c mod dx)"
proof -
  have w': "bx * dx + tx < C" "by * dy + ty < R"
    using w unfolding E_def env_cell [OF v] by simp_all
  have "i' * ps1 (e_P E) + valp_of E (tx, ty)
        = bz * (3 * R * C) + i' * (R * C) + (by * dy + ty) * C + (bx * dx + tx)"
    unfolding E_def env_cell [OF v] by (simp add: valid_kparams [OF v])
  moreover have "(bz * (3 * R * C) + i' * (R * C) + (by * dy + ty) * C + (bx * dx + tx)
                  = b * (3 * R * C) + i * (R * C) + r * C + c)
                 = (bz = b \<and> i' = i \<and> by * dy + ty = r \<and> bx * dx + tx = c)"
    using addr4_inj [of bz 3 R C i' "by * dy + ty" "bx * dx + tx" b i r c] cell thread(1) w'
    by auto
  ultimately show ?thesis
    using split_index [OF thread(2), of bx c] split_index [OF thread(3), of "by" r] by simp
qed

lemma launch_points:
  fixes points masks gOut cT gp gm gt :: buf
  assumes v: "valid_input B K R C ps ms ts n"
    and dx: "0 < dx" and dy: "0 < dy"
    and cover: "C \<le> gx * dx" "R \<le> gy * dy"
    and b: "b < B" and i: "i < 3" and r: "r < R" and c: "c < C"
  shows "fst (computeGradients_launch (gx, gy, B) (dx, dy) (kparams_of R C K ps ms ts)
                points masks gOut cT junk (gp, gm, gt))
           (b * (3 * R * C) + i * (R * C) + r * C + c)
         = grad_point (\<lambda>a. at4 gOut 3 R C b a r c) (\<lambda>k. at4 masks K R C b k r c)
             (\<lambda>k j. cT (b * (K * 12) + k * 12 + j)) K i"
proof -
  define E where "E = (\<lambda>bx by bz. \<lparr>e_P = kparams_of R C K ps ms ts, e_points = points,
                      e_masks = masks, e_gradTfmpoints = gOut, e_constTfms = cT,
                      blockDim_x = dx, blockDim_y = dy,
                      blockIdx_x = bx, blockIdx_y = by, blockIdx_z = bz\<rparr>)"
  define a where "a = b * (3 * R * C) + i * (R * C) + r * C + c"
  define val where "val = grad_point (\<lambda>a. at4 gOut 3 R C b a r c)
             (\<lambda>k. at4 masks K R C b k r c) (\<lambda>k j. cT (b * (K * 12) + k * 12 + j)) K i"
  define f where "f = (\<lambda>bz by bx (st :: kstate).
     computeGradients_block (E bx by bz)
       (st\<lparr>st_sharedData := fst (junk (bx, by, bz)), st_regs := snd (junk (bx, by, bz))\<rparr>))"
  define st0 :: kstate where "st0 = \<lparr>st_gradPoints = gp, st_gradMasks = gm,
                    st_gradTfms = gt, st_sharedData = (\<lambda>a. 0), st_regs = (\<lambda>t. (0, 0, 0))\<rparr>"
  define t where "t = (c mod dx, r mod dy)"
  define E0 where "E0 = E (c div dx) (r div dy) b"
  have EP: "e_P (E bx by bz) = kparams_of R C K ps ms ts" "blockIdx_z (E bx by bz) = bz"
    "blockDim_x (E bx by bz) = dx" "blockDim_y (E bx by bz) = dy"
    "e_points (E bx by bz) = points" "e_gradTfmpoints (E bx by bz) = gOut"
    "e_constTfms (E bx by bz) = cT" "e_masks (E bx by bz) = masks" for bx "by" bz
    by (simp_all add: E_def)
  note P = EP valid_kparams [OF v]
  have threads: "(tx, ty) \<in> set (block_threads (E bx by bz)) = (tx < dx \<and> ty < dy)"
    for tx ty bx "by" bz
    by (simp add: block_threads_set EP)
  have uniq: "(i' * ps1 (e_P (E bx by bz)) + valp_of (E bx by bz) (tx, ty) = a)
         = (bz = b \<and> i' = i \<and> by = r div dy \<and> ty = r mod dy \<and> bx = c div dx \<and> tx = c mod dx)"
    if "i' < 3" "tx < dx" "ty < dy" "withinLimits (E bx by bz) (tx, ty)" for i' tx ty bx "by" bz
    using that(4) unfolding E_def a_def
    by (rule point_writer_unique [OF v i r c that(1,2,3)])
  have tin: "t \<in> set (block_threads E0)"
    using dx dy by (simp add: t_def threads E0_def)
  have tw: "withinLimits E0 t"
    unfolding E0_def E_def t_def env_cell [OF v] using r c by simp
  have ta: "i * ps1 (e_P E0) + valp_of E0 t = a"
    using uniq [OF i, of "c mod dx" "r mod dy" "c div dx" "r div dy" b] tw dx dy
    by (simp add: t_def E0_def)
  have tp: "valp_of E0 t = b * (3 * R * C) + r * C + c"
    unfolding E0_def E_def t_def env_cell [OF v] by simp
  have tm: "valm_of E0 t = b * (K * R * C) + r * C + c"
    unfolding E0_def E_def t_def env_cell [OF v] by simp
  have hit: "st_gradPoints (f b (r div dy) (c div dx) s) a = val" for s
  proof -
    have "st_gradPoints (f b (r div dy) (c div dx) s) (i * ps1 (e_P E0) + valp_of E0 t)
          = e_gradTfmpoints E0 (i * ps1 (e_P E0) + valp_of E0 t)
            + (\<Sum>k<nSE3 (e_P E0). thread_point_term E0 k t i)"
      unfolding f_def E0_def [symmetric]
    proof (rule block_points_hit [OF tin tw i])
      fix i' :: nat and t' :: "nat \<times> nat"
      assume h: "i' < 3" "t' \<in> set (block_threads E0)" "withinLimits E0 t'" "(i', t') \<noteq> (i, t)"
      obtain tx ty where t': "t' = (tx, ty)" by (cases t')
      have "i' < 3" "tx < dx" "ty < dy"
        using h(1,2) by (simp_all add: t' threads E0_def)
      from uniq [OF this] h(3,4)
      show "i' * ps1 (e_P E0) + valp_of E0 t' \<noteq> i * ps1 (e_P E0) + valp_of E0 t"
        unfolding ta by (auto simp add: t' t_def E0_def)
    qed
    moreover have "e_gradTfmpoints E0 (i * ps1 (e_P E0) + valp_of E0 t) + (\<Sum>k<nSE3 (e_P E0). thread_point_term E0 k t i) = val"
      unfolding val_def grad_point_def thread_point_term_def Let_def tp tm
      unfolding E0_def P at4_def
      by (simp add: add_ac)
    ultimately show ?thesis unfolding ta by simp
  qed
  have miss: "st_gradPoints (f bz by bx s) a = st_gradPoints s a"
    if "(bz, by, bx) \<noteq> (b, r div dy, c div dx)" for bz "by" bx s
  proof -
    have "st_gradPoints (f bz by bx s) a
          = st_gradPoints (s\<lparr>st_sharedData := fst (junk (bx, by, bz)),
                            st_regs := snd (junk (bx, by, bz))\<rparr>) a"
      unfolding f_def
    proof (rule block_points_miss)
      fix i' :: nat and t' :: "nat \<times> nat"
      assume h: "i' < 3" "t' \<in> set (block_threads (E bx by bz))"
        "withinLimits (E bx by bz) t'"
      obtain tx ty where t': "t' = (tx, ty)" by (cases t')
      have "i' < 3" "tx < dx" "ty < dy"
        using h(1,2) by (simp_all add: t' threads)
      from uniq [OF this] h(3) that
      show "i' * ps1 (e_P (E bx by bz)) + valp_of (E bx by bz) t' \<noteq> a"
        by (auto simp add: t')
    qed
    then show ?thesis by simp
  qed
  have "st_gradPoints (fold (\<lambda>bz. fold (\<lambda>by. fold (\<lambda>bx. f bz by bx) [0..<gx]) [0..<gy]) [0..<B] st0) a
        = val"
  proof (rule fold3_hit [where pr = "\<lambda>st. st_gradPoints st a" and x = b and y = "r div dy"
        and z = "c div dx"])
    show "b \<in> set [0..<B]" using b by simp
    have "r < gy * dy" "c < gx * dx" using r c cover by simp_all
    then show "r div dy \<in> set [0..<gy]" "c div dx \<in> set [0..<gx]"
      using dx dy by (simp_all add: div_less_iff_less_mult)
  next
    fix s show "st_gradPoints (f b (r div dy) (c div dx) s) a = val" by (rule hit)
  next
    fix x' y' z' s
    assume "(x', y', z') \<noteq> (b, r div dy, c div dx)"
    then show "st_gradPoints (f x' y' z' s) a = st_gradPoints s a" by (rule miss)
  qed
  then show ?thesis
    unfolding computeGradients_launch_def f_def E_def st0_def a_def val_def
    by (simp add: Let_def)
qed


section \<open>The point and mask gradients\<close>

lemma grad_mask_cong:
  assumes "\<And>j. j < 12 \<Longrightarrow> T j = T' j"
  shows "grad_mask p g T = grad_mask p g T'"
  by (simp add: grad_mask_def numeral_3_eq_3 lessThan_Suc assms)

lemma grad_point_cong:
  assumes "\<And>k j. k < K \<Longrightarrow> j < 12 \<Longrightarrow> T k j = T' k j" and "i < 3"
  shows "grad_point g w T K i = grad_point g w T' K i"
proof -
  have "T k i = T' k i" "T k (4 + i) = T' k (4 + i)" "T k (8 + i) = T' k (8 + i)"
    if "k < K" for k
    using assms that by simp_all
  then show ?thesis unfolding grad_point_def by simp
qed

text \<open>
  Claim C2 (point gradient). On a valid input whose transforms fit the shared-memory
  budget of the launcher, the launch leaves at coordinate \<open>i\<close> of the point gradient of
  every cell \<open>(b, r, c)\<close> the value \<open>g + \<Sum>\<^sub>k w\<^sub>k * (R\<^sub>k\<^sup>T g - g)\<close>, with \<open>g\<close> the upstream
  gradient of the cell, \<open>w\<^sub>k\<close> its mask weights and \<open>R\<^sub>k\<close> the linear parts of the
  transforms of batch \<open>b\<close>, whatever the gradient buffers, constant memory, shared memory
  and registers held before.
\<close>

theorem point_gradient:
  fixes points masks tfms tfmpoints gradPoints gradMasks gradTfms gradTfmpoints constTfms0 :: buf
  assumes "valid_input B K R C ps ms ts nTfmParams"
    and "16 * 16 * 3 * 4 * 4 + K * 3 * 4 * 4 \<le> (32000 :: nat)"
    and "b < B" and "i < 3" and "r < R" and "c < C"
  shows "\<exists>gp gm gt.
           NTfm3D_BackwardLauncher points masks tfms tfmpoints gradPoints gradMasks gradTfms
             gradTfmpoints B 3 R C K nTfmParams ps ms ts constTfms0 junk = Inr (gp, gm, gt)
           \<and> at4 gp 3 R C b i r c
             = grad_point (\<lambda>a. at4 gradTfmpoints 3 R C b a r c) (\<lambda>k. at4 masks K R C b k r c)
                 (\<lambda>k j. tfm_at tfms K b k j) K i"
proof -
  have n: "nTfmParams = B * K * 12" using assms(1) by (simp add: valid_input_def)
  have c: "C \<le> nat \<lceil>real C * (1 / 16)\<rceil> * 16" "R \<le> nat \<lceil>real R * (1 / 16)\<rceil> * 16"
    using blocks_cover [where d = 16 and n = C] blocks_cover [where d = 16 and n = R]
    by simp_all
  obtain gp gm gt where res: "computeGradients_launch
                  (nat \<lceil>real C * (1 / 16)\<rceil>, nat \<lceil>real R * (1 / 16)\<rceil>, B) (16, 16)
                  (kparams_of R C K ps ms ts) points masks gradTfmpoints
                  (cudaMemcpyToSymbol constTfms0 tfms nTfmParams) junk
                  (gradPoints, gradMasks, gradTfms) = (gp, gm, gt)"
    by (rule prod_cases3)
  have "at4 gp 3 R C b i r c
        = grad_point (\<lambda>a. at4 gradTfmpoints 3 R C b a r c) (\<lambda>k. at4 masks K R C b k r c)
            (\<lambda>k j. cudaMemcpyToSymbol constTfms0 tfms nTfmParams (b * (K * 12) + k * 12 + j)) K i"
    using launch_points [OF assms(1) _ _ c assms(3,4,5,6), where points = points
        and masks = masks and gOut = gradTfmpoints
        and cT = "cudaMemcpyToSymbol constTfms0 tfms nTfmParams"
        and junk = junk and gp = gradPoints and gm = gradMasks and gt = gradTfms]
    unfolding res by (simp add: at4_def)
  also have "\<dots> = grad_point (\<lambda>a. at4 gradTfmpoints 3 R C b a r c)
                     (\<lambda>k. at4 masks K R C b k r c) (\<lambda>k j. tfm_at tfms K b k j) K i"
    unfolding n by (rule grad_point_cong) (simp_all add: staged_tfm assms(3,4))
  finally show ?thesis
    unfolding backward_launcher_runs [OF assms(2)] res by simp
qed

theorem point_gradient_witness:
  "(\<exists>gp gm gt.
      NTfm3D_BackwardLauncher (tdata ex_points) (tdata ex_masks) (tdata ex_tfms) (\<lambda>a. 7)
        (\<lambda>a. 7) (\<lambda>a. 7) (\<lambda>a. 0) (tdata ex_gradOut) 1 3 1 1 1 12
        [3, 1, 1, 1] [1, 1, 1, 1] [12, 12, 1] (\<lambda>a. 7) (\<lambda>blk. (\<lambda>a. 7, \<lambda>t. (7, 7, 7)))
      = Inr (gp, gm, gt) \<and> at4 gp 3 1 1 0 0 0 0 = 1)"
  using point_gradient [OF ex_valid_input, where b = 0 and i = 0 and r = 0 and c = 0
      and points = "tdata ex_points" and masks = "tdata ex_masks" and tfms = "tdata ex_tfms"
      and gradTfmpoints = "tdata ex_gradOut"]
  by (simp add: grad_point_def at4_def tfm_at_def ex_points_def ex_masks_def ex_tfms_def
      ex_gradOut_def buf_of_def)

text \<open>
  Claim C3 (mask gradient). On a valid input whose transforms fit the shared-memory
  budget of the launcher, the launch leaves at every cell \<open>(b, k, r, c)\<close> of the mask
  gradient the value \<open>p \<cdot> (R\<^sub>k\<^sup>T g) + g \<cdot> (t\<^sub>k - p)\<close>, whatever the buffer held before: the
  value is assigned, not added. The cell has exactly one writer: among all blocks
  \<open>(bx, by, bz)\<close>, rounds \<open>k'\<close> and threads \<open>(tx, ty)\<close> inside the limits, the address
  \<open>k' * ms1 + valm\<close> of the store is that of the cell only for thread
  \<open>(c mod 16, r mod 16)\<close> of block \<open>(c div 16, r div 16, b)\<close> in round \<open>k\<close>.
\<close>

theorem mask_gradient_written_once:
  fixes points masks tfms tfmpoints gradPoints gradMasks gradTfms gradTfmpoints constTfms0 :: buf
  assumes "valid_input B K R C ps ms ts nTfmParams"
    and "16 * 16 * 3 * 4 * 4 + K * 3 * 4 * 4 \<le> (32000 :: nat)"
    and "b < B" and "k < K" and "r < R" and "c < C"
  shows "(\<exists>gp gm gt.
           NTfm3D_BackwardLauncher points masks tfms tfmpoints gradPoints gradMasks gradTfms
             gradTfmpoints B 3 R C K nTfmParams ps ms ts constTfms0 junk = Inr (gp, gm, gt)
           \<and> at4 gm K R C b k r c
             = grad_mask (\<lambda>j. at4 points 3 R C b j r c) (\<lambda>j. at4 gradTfmpoints 3 R C b j r c)
                 (\<lambda>j. tfm_at tfms K b k j))
         \<and> (\<forall>E bx by bz k' tx ty.
              E = \<lparr>e_P = kparams_of R C K ps ms ts, e_points = points, e_masks = masks,
                   e_gradTfmpoints = gradTfmpoints,
                   e_constTfms = cudaMemcpyToSymbol constTfms0 tfms nTfmParams,
                   blockDim_x = 16, blockDim_y = 16,
                   blockIdx_x = bx, blockIdx_y = by, blockIdx_z = bz\<rparr>
              \<and> k' < K \<and> tx < 16 \<and> ty < 16 \<and> withinLimits E (tx, ty)
              \<longrightarrow> (k' * ms1 (e_P E) + valm_of E (tx, ty)
                     = b * (K * R * C) + k * (R * C) + r * C + c)
                  = (bz = b \<and> k' = k \<and> by = r div 16 \<and> ty = r mod 16
                     \<and> bx = c div 16 \<and> tx = c mod 16))"
proof -
  have n: "nTfmParams = B * K * 12" using assms(1) by (simp add: valid_input_def)
  have c: "C \<le> nat \<lceil>real C * (1 / 16)\<rceil> * 16" "R \<le> nat \<lceil>real R * (1 / 16)\<rceil> * 16"
    using blocks_cover [where d = 16 and n = C] blocks_cover [where d = 16 and n = R]
    by simp_all
  obtain gp gm gt where res: "computeGradients_launch
                  (nat \<lceil>real C * (1 / 16)\<rceil>, nat \<lceil>real R * (1 / 16)\<rceil>, B) (16, 16)
                  (kparams_of R C K ps ms ts) points masks gradTfmpoints
                  (cudaMemcpyToSymbol constTfms0 tfms nTfmParams) junk
                  (gradPoints, gradMasks, gradTfms) = (gp, gm, gt)"
    by (rule prod_cases3)
  have "at4 gm K R C b k r c
        = grad_mask (\<lambda>j. at4 points 3 R C b j r c) (\<lambda>j. at4 gradTfmpoints 3 R C b j r c)
            (\<lambda>j. cudaMemcpyToSymbol constTfms0 tfms nTfmParams (b * (K * 12) + k * 12 + j))"
    using launch_masks [OF assms(1) _ _ c assms(3,4,5,6), where points = points
        and masks = masks and gOut = gradTfmpoints
        and cT = "cudaMemcpyToSymbol constTfms0 tfms nTfmParams"
        and junk = junk and gp = gradPoints and gm = gradMasks and gt = gradTfms]
    unfolding res by (simp add: at4_def)
  also have "\<dots> = grad_mask (\<lambda>j. at4 points 3 R C b j r c)
                     (\<lambda>j. at4 gradTfmpoints 3 R C b j r c) (\<lambda>j. tfm_at tfms K b k j)"
    unfolding n by (rule grad_mask_cong) (simp add: staged_tfm assms(3,4))
  finally have result: "\<exists>gp gm gt.
           NTfm3D_BackwardLauncher points masks tfms tfmpoints gradPoints gradMasks gradTfms
             gradTfmpoints B 3 R C K nTfmParams ps ms ts constTfms0 junk = Inr (gp, gm, gt)
           \<and> at4 gm K R C b k r c
             = grad_mask (\<lambda>j. at4 points 3 R C b j r c) (\<lambda>j. at4 gradTfmpoints 3 R C b j r c)
                 (\<lambda>j. tfm_at tfms K b k j)"
    unfolding backward_launcher_runs [OF assms(2)] res by simp
  have once: "(k' * ms1 (e_P E) + valm_of E (tx, ty)
                     = b * (K * R * C) + k * (R * C) + r * C + c)
                  = (bz = b \<and> k' = k \<and> by = r div 16 \<and> ty = r mod 16
                     \<and> bx = c div 16 \<and> tx = c mod 16)"
    if "E = \<lparr>e_P = kparams_of R C K ps ms ts, e_points = points, e_masks = masks,
                   e_gradTfmpoints = gradTfmpoints,
                   e_constTfms = cudaMemcpyToSymbol constTfms0 tfms nTfmParams,
                   blockDim_x = 16, blockDim_y = 16,
                   blockIdx_x = bx, blockIdx_y = by, blockIdx_z = bz\<rparr>"
      "k' < K" "tx < 16" "ty < 16" "withinLimits E (tx, ty)" for E bx "by" bz k' tx ty
    using that(5) unfolding that(1)
    by (rule mask_writer_unique [OF assms(1,4,5,6) that(2,3,4)])
  show ?thesis
    using result once by blast
qed

theorem mask_gradient_written_once_witness:
  "(\<exists>gp gm gt.
      NTfm3D_BackwardLauncher (tdata ex_points) (tdata ex_masks) (tdata ex_tfms) (\<lambda>a. 7)
        (\<lambda>a. 7) (\<lambda>a. 7) (\<lambda>a. 0) (tdata ex_gradOut) 1 3 1 1 1 12
        [3, 1, 1, 1] [1, 1, 1, 1] [12, 12, 1] (\<lambda>a. 7) (\<lambda>blk. (\<lambda>a. 7, \<lambda>t. (7, 7, 7)))
      = Inr (gp, gm, gt) \<and> at4 gm 1 1 1 0 0 0 0 = 1)
   \<and> withinLimits \<lparr>e_P = kparams_of 1 1 1 [3, 1, 1, 1] [1, 1, 1, 1] [12, 12, 1],
          e_points = tdata ex_points, e_masks = tdata ex_masks,
          e_gradTfmpoints = tdata ex_gradOut,
          e_constTfms = cudaMemcpyToSymbol (\<lambda>a. 7) (tdata ex_tfms) 12,
          blockDim_x = 16, blockDim_y = 16,
          blockIdx_x = 0, blockIdx_y = 0, blockIdx_z = 0\<rparr> (0, 0)
   \<and> \<not> withinLimits \<lparr>e_P = kparams_of 1 1 1 [3, 1, 1, 1] [1, 1, 1, 1] [12, 12, 1],
          e_points = tdata ex_points, e_masks = tdata ex_masks,
          e_gradTfmpoints = tdata ex_gradOut,
          e_constTfms = cudaMemcpyToSymbol (\<lambda>a. 7) (tdata ex_tfms) 12,
          blockDim_x = 16, blockDim_y = 16,
          blockIdx_x = 0, blockIdx_y = 0, blockIdx_z = 0\<rparr> (1, 0)"
  using mask_gradient_written_once [OF ex_valid_input, where b = 0 and k = 0 and r = 0
      and c = 0 and points = "tdata ex_points" and masks = "tdata ex_masks"
      and tfms = "tdata ex_tfms" and gradTfmpoints = "tdata ex_gradOut", THEN conjunct1]
  by (simp add: grad_mask_def at4_def tfm_at_def ex_points_def ex_masks_def ex_tfms_def
      ex_gradOut_def buf_of_def withinLimits_def thread_col_def thread_row_def kparams_of_def
      numeral_3_eq_3 lessThan_Suc)

end
